theory Spec2Isabelle
  imports Main "HOL-Library.DAList"
begin

section \<open>ClauseWeaver: the client mirror of the mother relation\<close>

text \<open>
  The definitions of this section embed \<^verbatim>\<open>frontend/src/hooks/useTree.ts\<close>, the
  types of \<^verbatim>\<open>types.ts\<close> (kept after \<^verbatim>\<open>frontend/src/components/TreeView.tsx\<close>),
  \<^verbatim>\<open>frontend/src/api.ts\<close> and the drag handlers of the application component
  \<^verbatim>\<open>App.tsx\<close> (the source file \<^verbatim>\<open>unnamed/part_002\<close>).

  Representation choices.
  \<^item> A node identity is a JavaScript number holding an integer: \<open>int\<close>.
  \<^item> \<^verbatim>\<open>number | null\<close> is \<open>int option\<close>; every writer of the mother map
    normalises with \<^verbatim>\<open>?? null\<close>, so \<open>None\<close> stands for both \<^verbatim>\<open>null\<close> and
    \<^verbatim>\<open>undefined\<close>.
  \<^item> A JavaScript \<^verbatim>\<open>Map\<close> iterates in insertion order and holds each key once: it
    is a distinct association list, \<open>('k, 'v) alist\<close>. \<^verbatim>\<open>get\<close> is
    \<open>DAList.lookup\<close>, \<^verbatim>\<open>set\<close> is \<open>DAList.update\<close> (an existing key keeps its
    position, a new key goes last) and \<^verbatim>\<open>forEach\<close> runs over \<open>DAList.impl_of\<close>.
  \<^item> A JavaScript \<^verbatim>\<open>Set\<close> that is only read through \<^verbatim>\<open>has\<close> is a HOL set.
\<close>

subsection \<open>Data transfer objects (types.ts)\<close>

text \<open>
  Field names that Isabelle reserves are prefixed: \<^verbatim>\<open>from\<close>, \<^verbatim>\<open>to\<close> and
  \<^verbatim>\<open>source\<close> of an edge are \<open>edge_from\<close>, \<open>edge_to\<close> and \<open>edge_source\<close>, and
  \<^verbatim>\<open>id\<close> of a node is \<open>node_id\<close>.
\<close>

datatype EdgeSource = Original | User

record EdgeDTO =
  edge_from :: int
  edge_to :: "int option"
  edge_source :: EdgeSource

text \<open>
  \<^verbatim>\<open>ClauseNodeDTO\<close>: the fields that the hook and the drag handlers read. The
  display-only fields (label, kind, typ, rela, code, txt, domain, instruction,
  coreFunctions, children, reference, slotCount) take part in no decision and are left out.
\<close>

record ClauseNodeDTO =
  node_id :: int
  slotsStart :: int
  slotsEnd :: int
  containerId :: string
  inScope :: bool
  draggable :: bool
  originalMother :: "int option"

record DropTargets =
  nodeTargets :: "int set"
  allowRoot :: bool

subsection \<open>Edge map and children index (useTree.ts)\<close>

definition buildEdgeMap :: "EdgeDTO list \<Rightarrow> (int, int option) alist" where
  "buildEdgeMap edges =
     fold (\<lambda>edge m. DAList.update (edge_from edge) (edge_to edge) m) edges DAList.empty"

text \<open>\<^verbatim>\<open>childrenMap.get(current) ?? []\<close>.\<close>

definition children_of :: "(int, int list) alist \<Rightarrow> int \<Rightarrow> int list" where
  "children_of childrenMap current =
     (case DAList.lookup childrenMap current of None \<Rightarrow> [] | Some cs \<Rightarrow> cs)"

text \<open>
  One call of the \<^verbatim>\<open>forEach\<close> callback of \<^verbatim>\<open>buildChildrenMap\<close>: a null mother
  returns at once; otherwise the mother's array is created when missing and the child is
  pushed at its end.
\<close>

definition addChild :: "int \<times> int option \<Rightarrow> (int, int list) alist \<Rightarrow> (int, int list) alist" where
  "addChild entry children =
     (case snd entry of
        None \<Rightarrow> children
      | Some mother \<Rightarrow>
          (let children' =
                 (if DAList.lookup children mother = None
                  then DAList.update mother [] children else children)
           in DAList.update mother (children_of children' mother @ [fst entry]) children'))"

definition buildChildrenMap :: "(int, int option) alist \<Rightarrow> (int, int list) alist" where
  "buildChildrenMap mothers = fold addChild (DAList.impl_of mothers) DAList.empty"

subsection \<open>Descendant collection (useTree.ts, collectDescendants)\<close>

text \<open>
  The \<^verbatim>\<open>for\<close> loop over the children of the popped node: a child that is not yet
  visited is added to \<^verbatim>\<open>visited\<close> and pushed. The stack is a list whose head is
  the top (the end of the JavaScript array).
\<close>

fun visitChildren :: "int list \<Rightarrow> int list \<times> int set \<Rightarrow> int list \<times> int set" where
  "visitChildren [] (stack, visited) = (stack, visited)"
| "visitChildren (child # children) (stack, visited) =
     (if child \<notin> visited
      then visitChildren children (child # stack, insert child visited)
      else visitChildren children (stack, visited))"

text \<open>
  The \<^verbatim>\<open>while (stack.length > 0)\<close> loop. Nothing in its definition says that it
  ends: a run that never leaves the loop is the value \<open>None\<close>.
\<close>

partial_function (option) collectLoop ::
    "(int, int list) alist \<Rightarrow> int list \<Rightarrow> int set \<Rightarrow> int set option" where
  "collectLoop childrenMap stack visited =
     (case stack of
        [] \<Rightarrow> Some visited
      | current # rest \<Rightarrow>
          (case visitChildren (children_of childrenMap current) (rest, visited) of
             (stack', visited') \<Rightarrow> collectLoop childrenMap stack' visited'))"

declare collectLoop.simps [code]

definition collectDescendants :: "int \<Rightarrow> (int, int list) alist \<Rightarrow> int set option" where
  "collectDescendants root childrenMap = collectLoop childrenMap [root] {}"

subsection \<open>Render tree (useTree.ts, buildRenderTree)\<close>

record RenderNode =
  rn_node :: ClauseNodeDTO
  rn_depth :: nat
  rn_mother :: "int option"
  rn_isEdited :: bool

text \<open>\<^verbatim>\<open>new Map(nodes.map((node) => [node.id, node]))\<close>.\<close>

definition nodesById_of :: "ClauseNodeDTO list \<Rightarrow> (int, ClauseNodeDTO) alist" where
  "nodesById_of nodes = fold (\<lambda>node m. DAList.update (node_id node) node m) nodes DAList.empty"

text \<open>\<^verbatim>\<open>mothers.get(id) ?? null\<close>.\<close>

definition mother_of :: "(int, int option) alist \<Rightarrow> int \<Rightarrow> int option" where
  "mother_of mothers n = (case DAList.lookup mothers n of None \<Rightarrow> None | Some mother \<Rightarrow> mother)"

text \<open>
  The loop of \<^verbatim>\<open>computeDepth\<close>:
  \<^verbatim>\<open>while (current != null && nodesById.has(current) && !seen.has(current))\<close>.
\<close>

partial_function (option) depthLoop ::
    "(int, int option) alist \<Rightarrow> (int, ClauseNodeDTO) alist \<Rightarrow> nat \<Rightarrow> int option \<Rightarrow> int set
      \<Rightarrow> nat option" where
  "depthLoop mothers nodesById depth current seen =
     (case current of
        None \<Rightarrow> Some depth
      | Some cur \<Rightarrow>
          (if DAList.lookup nodesById cur \<noteq> None \<and> cur \<notin> seen
           then depthLoop mothers nodesById (depth + 1) (mother_of mothers cur) (insert cur seen)
           else Some depth))"

declare depthLoop.simps [code]

definition computeDepth ::
    "(int, int option) alist \<Rightarrow> (int, ClauseNodeDTO) alist \<Rightarrow> int \<Rightarrow> nat option" where
  "computeDepth mothers nodesById n = depthLoop mothers nodesById 0 (mother_of mothers n) {}"

definition renderNode ::
    "(int, int option) alist \<Rightarrow> (int, ClauseNodeDTO) alist \<Rightarrow> int set \<Rightarrow> ClauseNodeDTO
      \<Rightarrow> RenderNode option" where
  "renderNode mothers nodesById edited node =
     map_option
       (\<lambda>d. \<lparr>rn_node = node, rn_depth = d, rn_mother = mother_of mothers (node_id node),
              rn_isEdited = (node_id node \<in> edited)\<rparr>)
       (computeDepth mothers nodesById (node_id node))"

definition buildRenderTree ::
    "ClauseNodeDTO list \<Rightarrow> (int, int option) alist \<Rightarrow> int set \<Rightarrow> RenderNode list option" where
  "buildRenderTree nodes mothers edited =
     those (map (renderNode mothers (nodesById_of nodes) edited) nodes)"

subsection \<open>Drop targets (useTree.ts, computeDropTargets)\<close>

text \<open>The callback of \<^verbatim>\<open>nodesById.forEach\<close>, with its three early returns in order.\<close>

definition addTarget :: "int set \<Rightarrow> int \<Rightarrow> int \<times> ClauseNodeDTO \<Rightarrow> int set \<Rightarrow> int set" where
  "addTarget forbidden childId entry targets =
     (if fst entry \<in> forbidden then targets
      else if \<not> draggable (snd entry) then targets
      else if fst entry \<ge> childId then targets
      else insert (fst entry) targets)"

definition computeDropTargets ::
    "(int, ClauseNodeDTO) alist \<Rightarrow> (int, int option) alist \<Rightarrow> int \<Rightarrow> DropTargets option" where
  "computeDropTargets nodesById mothers childId =
     (case DAList.lookup nodesById childId of
        None \<Rightarrow> Some \<lparr>nodeTargets = {}, allowRoot = False\<rparr>
      | Some node \<Rightarrow>
          (case collectDescendants childId (buildChildrenMap mothers) of
             None \<Rightarrow> None
           | Some descendants \<Rightarrow>
               (let forbidden = insert childId descendants;
                    targets = fold (addTarget forbidden childId) (DAList.impl_of nodesById) {}
                in Some \<lparr>nodeTargets = targets, allowRoot = True\<rparr>)))"

subsection \<open>Hook state and the incremental update (useTree.ts)\<close>

text \<open>
  Messages shown to the user. The hook and the drag handlers use fixed Korean literals; each
  is a constructor here: \<open>LoadFailed\<close> (useTree.ts line 126, "could not load the data"),
  \<open>EditFailed\<close> (line 162, "the edit failed"), \<open>RootNotAllowed\<close> (App.tsx line 163),
  \<open>InvalidDropZone\<close> (line 171), \<open>SameNode\<close> (line 175, "cannot connect a node to
  itself") and \<open>TargetNotAllowed\<close> (line 179). \<open>ErrorText\<close> carries the message of a
  caught \<^verbatim>\<open>Error\<close>.
\<close>

datatype ui_message =
  ErrorText string | LoadFailed | EditFailed
  | RootNotAllowed | InvalidDropZone | SameNode | TargetNotAllowed

text \<open>
  A thrown value: an instance of \<^verbatim>\<open>Error\<close> (or of a subclass such as
  \<^verbatim>\<open>TypeError\<close> and \<^verbatim>\<open>SyntaxError\<close>) with its message, or any other value.
\<close>

datatype js_thrown = Error string | NonError

record tree_state =
  st_loading :: bool
  st_mutating :: bool
  st_error :: "ui_message option"
  st_nodes :: "ClauseNodeDTO list"
  st_mothers :: "(int, int option) alist"
  st_edited :: "int set"

definition applyEdgeUpdate :: "tree_state \<Rightarrow> EdgeDTO \<Rightarrow> tree_state" where
  "applyEdgeUpdate st edge =
     st\<lparr>st_mothers := DAList.update (edge_from edge) (edge_to edge) (st_mothers st),
        st_edited :=
          (if edge_source edge = User then insert (edge_from edge) (st_edited st)
           else st_edited st - {edge_from edge})\<rparr>"

text \<open>
  \<^verbatim>\<open>handleMutation\<close> awaits the mutator; \<open>result\<close> is what the await gives: \<open>Inr\<close> the
  edge, or \<open>Inl\<close> the thrown value. The function returns the new state and, when it rethrows,
  the thrown value. The \<^verbatim>\<open>finally\<close> block only schedules \<open>mutatingTimeout\<close>, which runs
  150 ms later.
\<close>

definition handleMutation ::
    "tree_state \<Rightarrow> js_thrown + EdgeDTO \<Rightarrow> tree_state \<times> js_thrown option" where
  "handleMutation st result =
     (let st1 = st\<lparr>st_mutating := True\<rparr> in
      case result of
        Inr edge \<Rightarrow> ((applyEdgeUpdate st1 edge)\<lparr>st_error := None\<rparr>, None)
      | Inl err \<Rightarrow>
          (st1\<lparr>st_error :=
                  Some (case err of Error message \<Rightarrow> ErrorText message | NonError \<Rightarrow> EditFailed)\<rparr>,
           Some err))"

definition mutatingTimeout :: "tree_state \<Rightarrow> tree_state" where
  "mutatingTimeout st = st\<lparr>st_mutating := False\<rparr>"

subsection \<open>Requests (api.ts)\<close>

text \<open>
  A \<^verbatim>\<open>Response\<close> as \<^verbatim>\<open>handleResponse\<close> reads it: the flag \<^verbatim>\<open>ok\<close>, what
  \<^verbatim>\<open>await response.json()\<close> gives (a value of the expected shape, or a thrown value) and the
  body text that \<^verbatim>\<open>await response.text()\<close> gives.
\<close>

record 'a Response =
  resp_ok :: bool
  resp_json :: "js_thrown + 'a"
  resp_text :: string

datatype json =
  JNull | JBool bool | JNumber int | JString string | JArray "json list"
  | JObject "(string \<times> json) list"

text \<open>
  What the handlers use of the JavaScript runtime: \<^verbatim>\<open>JSON.parse\<close> (which throws on a
  text that is not JSON), the value thrown by reading a property of \<^verbatim>\<open>null\<close>, and the
  conversion of a value to a string that \<^verbatim>\<open>new Error(value)\<close> performs.
\<close>

record js_runtime =
  JSON_parse :: "string \<Rightarrow> js_thrown + json"
  nullPropertyError :: js_thrown
  String_of :: "json \<Rightarrow> string"

text \<open>
  \<^verbatim>\<open>data.reason\<close>: reading the property throws on \<^verbatim>\<open>null\<close>, gives the member of
  an object (its member list holds each name once, as \<^verbatim>\<open>JSON.parse\<close> keeps the last
  of duplicates) and \<^verbatim>\<open>undefined\<close>, here \<open>Inr None\<close>, in every other case.
\<close>

definition reason_of :: "js_runtime \<Rightarrow> json \<Rightarrow> js_thrown + json option" where
  "reason_of rt data =
     (case data of
        JNull \<Rightarrow> Inl (nullPropertyError rt)
      | JObject members \<Rightarrow> Inr (map_of members ''reason'')
      | _ \<Rightarrow> Inr None)"

text \<open>
  \<^verbatim>\<open>new Error(data.reason ?? text ?? "UNKNOWN_ERROR")\<close>: the body text is a string, so
  the last alternative is never taken.
\<close>

definition reasonError :: "js_runtime \<Rightarrow> json option \<Rightarrow> string \<Rightarrow> js_thrown" where
  "reasonError rt reason text =
     (case reason of
        None \<Rightarrow> Error text
      | Some JNull \<Rightarrow> Error text
      | Some (JString s) \<Rightarrow> Error s
      | Some v \<Rightarrow> Error (String_of rt v))"

text \<open>
  The \<^verbatim>\<open>try\<close> block of \<^verbatim>\<open>handleResponse\<close>: it parses the text and throws; it has
  no normal exit.
\<close>

definition tryBlock :: "js_runtime \<Rightarrow> string \<Rightarrow> js_thrown + 'a" where
  "tryBlock rt text =
     (case JSON_parse rt text of
        Inl thrown \<Rightarrow> Inl thrown
      | Inr data \<Rightarrow>
          (case reason_of rt data of
             Inl thrown \<Rightarrow> Inl thrown
           | Inr reason \<Rightarrow> Inl (reasonError rt reason text)))"

definition handleResponse :: "js_runtime \<Rightarrow> 'a Response \<Rightarrow> js_thrown + 'a" where
  "handleResponse rt response =
     (if resp_ok response then resp_json response
      else
        (let text = resp_text response in
         case tryBlock rt text of
           Inl _ \<Rightarrow> Inl (Error (if text = [] then ''Request failed'' else text))
         | Inr v \<Rightarrow> Inr v))"

datatype request = PostReparent int int | PostRootify int | PostUndo | PostRedo

record EdgeEnvelope =
  env_edge :: EdgeDTO

text \<open>
  \<^verbatim>\<open>fetch\<close> is a parameter: for a request it gives a response, or throws (no
  connection).
\<close>

type_synonym fetch = "request \<Rightarrow> js_thrown + EdgeEnvelope Response"

definition reparent :: "js_runtime \<Rightarrow> fetch \<Rightarrow> int \<Rightarrow> int \<Rightarrow> js_thrown + EdgeDTO" where
  "reparent rt fetch child newMother =
     (case fetch (PostReparent child newMother) of
        Inl thrown \<Rightarrow> Inl thrown
      | Inr res \<Rightarrow> map_sum id env_edge (handleResponse rt res))"

definition rootify :: "js_runtime \<Rightarrow> fetch \<Rightarrow> int \<Rightarrow> js_thrown + EdgeDTO" where
  "rootify rt fetch child =
     (case fetch (PostRootify child) of
        Inl thrown \<Rightarrow> Inl thrown
      | Inr res \<Rightarrow> map_sum id env_edge (handleResponse rt res))"

definition undo :: "js_runtime \<Rightarrow> fetch \<Rightarrow> js_thrown + EdgeDTO" where
  "undo rt fetch =
     (case fetch PostUndo of
        Inl thrown \<Rightarrow> Inl thrown
      | Inr res \<Rightarrow> map_sum id env_edge (handleResponse rt res))"

definition redo :: "js_runtime \<Rightarrow> fetch \<Rightarrow> js_thrown + EdgeDTO" where
  "redo rt fetch =
     (case fetch PostRedo of
        Inl thrown \<Rightarrow> Inl thrown
      | Inr res \<Rightarrow> map_sum id env_edge (handleResponse rt res))"

definition reparentNode ::
    "js_runtime \<Rightarrow> fetch \<Rightarrow> tree_state \<Rightarrow> int \<Rightarrow> int \<Rightarrow> tree_state \<times> js_thrown option" where
  "reparentNode rt fetch st child newMother = handleMutation st (reparent rt fetch child newMother)"

definition rootifyNode ::
    "js_runtime \<Rightarrow> fetch \<Rightarrow> tree_state \<Rightarrow> int \<Rightarrow> tree_state \<times> js_thrown option" where
  "rootifyNode rt fetch st child = handleMutation st (rootify rt fetch child)"

definition undoLast :: "js_runtime \<Rightarrow> fetch \<Rightarrow> tree_state \<Rightarrow> tree_state \<times> js_thrown option" where
  "undoLast rt fetch st = handleMutation st (undo rt fetch)"

definition redoLast :: "js_runtime \<Rightarrow> fetch \<Rightarrow> tree_state \<Rightarrow> tree_state \<times> js_thrown option" where
  "redoLast rt fetch st = handleMutation st (redo rt fetch)"

subsection \<open>Drag handlers (App.tsx)\<close>

text \<open>
  An identifier of the drag library is a string or a number. The rows of the tree register
  the identifiers \<^verbatim>\<open>drag-<id>\<close> and \<^verbatim>\<open>drop-<id>\<close>, the root zone registers
  \<^verbatim>\<open>root-drop\<close>.
\<close>

datatype unique_id = StrId string | NumId int

record DragEndEvent =
  active_id :: unique_id
  over_id :: "unique_id option"

text \<open>
  \<^verbatim>\<open>parseDragId\<close> and \<^verbatim>\<open>parseDropId\<close>. The parameter \<open>Number\<close> is JavaScript's
  \<^verbatim>\<open>Number(text)\<close> followed by the \<^verbatim>\<open>Number.isFinite\<close> test: \<open>None\<close> when the
  value is not finite. The prefix was tested just before, so \<^verbatim>\<open>id.replace(prefix, "")\<close>
  removes the first five characters.
\<close>

definition parseDragId :: "(string \<Rightarrow> int option) \<Rightarrow> unique_id \<Rightarrow> int option" where
  "parseDragId Number ident =
     (case ident of
        NumId _ \<Rightarrow> None
      | StrId s \<Rightarrow> if take 5 s \<noteq> ''drag-'' then None else Number (drop 5 s))"

definition parseDropId :: "(string \<Rightarrow> int option) \<Rightarrow> unique_id \<Rightarrow> int option" where
  "parseDropId Number ident =
     (case ident of
        NumId _ \<Rightarrow> None
      | StrId s \<Rightarrow> if take 5 s \<noteq> ''drop-'' then None else Number (drop 5 s))"

text \<open>
  What a handler does, in order: calls of \<^verbatim>\<open>resetDragState\<close>, \<^verbatim>\<open>reportError\<close>,
  \<^verbatim>\<open>setPendingAction\<close>, and the two requests \<^verbatim>\<open>rootifyNode\<close> and
  \<^verbatim>\<open>reparentNode\<close>.
\<close>

datatype drop_effect =
  ResetDragState | ReportError ui_message | SetPendingAction "string option"
  | RootifyNode int | ReparentNode int int

text \<open>The \<^verbatim>\<open>catch\<close> block of \<^verbatim>\<open>handleDrop\<close>, for what the awaited request threw.\<close>

definition catchBlock :: "js_thrown option \<Rightarrow> drop_effect list" where
  "catchBlock awaited =
     (case awaited of
        None \<Rightarrow> []
      | Some (Error message) \<Rightarrow> [ReportError (ErrorText message)]
      | Some NonError \<Rightarrow> [])"

text \<open>
  \<^verbatim>\<open>handleDrop\<close>: \<open>dropTargets\<close> is the state set when the drag started (\<open>None\<close> is
  \<^verbatim>\<open>null\<close>), \<open>awaited\<close> is what the request throws if one is sent. The three early
  returns come before the \<^verbatim>\<open>try\<close>; every path through the \<^verbatim>\<open>try\<close> ends with the
  \<^verbatim>\<open>finally\<close> block.
\<close>

definition handleDrop ::
    "(string \<Rightarrow> int option) \<Rightarrow> DropTargets option \<Rightarrow> DragEndEvent \<Rightarrow> js_thrown option
      \<Rightarrow> drop_effect list" where
  "handleDrop Number dropTargets event awaited =
     (case parseDragId Number (active_id event) of
        None \<Rightarrow> [ResetDragState]
      | Some childId \<Rightarrow>
          (case over_id event of
             None \<Rightarrow> [ResetDragState]
           | Some overId \<Rightarrow>
               (case dropTargets of
                  None \<Rightarrow> [ResetDragState]
                | Some targets \<Rightarrow>
                    (if overId = StrId ''root-drop'' then
                       (if \<not> allowRoot targets then [ReportError RootNotAllowed]
                        else [SetPendingAction (Some ''rootify''), RootifyNode childId]
                               @ catchBlock awaited)
                     else
                       (case parseDropId Number overId of
                          None \<Rightarrow> [ReportError InvalidDropZone]
                        | Some motherId \<Rightarrow>
                            if motherId = childId then [ReportError SameNode]
                            else if motherId \<notin> nodeTargets targets
                            then [ReportError TargetNotAllowed]
                            else [SetPendingAction (Some ''reparent''),
                                  ReparentNode childId motherId] @ catchBlock awaited))
                    @ [SetPendingAction None, ResetDragState])))"

text \<open>
  \<^verbatim>\<open>handleDragStart\<close>: the drop targets that the drag of a node puts into the state
  (the state is left as it was, \<open>None\<close> here, when the identifier does not parse).
\<close>

definition handleDragStart ::
    "(string \<Rightarrow> int option) \<Rightarrow> (int, ClauseNodeDTO) alist \<Rightarrow> (int, int option) alist
      \<Rightarrow> unique_id \<Rightarrow> DropTargets option" where
  "handleDragStart Number nodesById mothers active =
     (case parseDragId Number active of
        None \<Rightarrow> None
      | Some nodeId \<Rightarrow> computeDropTargets nodesById mothers nodeId)"

section \<open>The Overlay Graph Engine\<close>

text \<open>
  The engine runs in the backend (\<^verbatim>\<open>backend/services.py\<close>, \<^verbatim>\<open>backend/storage.py\<close>),
  which is not among the sources; the client above only calls it through \<^verbatim>\<open>api.ts\<close>.
  Every definition of this section is therefore written from the specification, sections 3,
  4 and 6.
\<close>

text \<open>Modelled from the spec: the rejection and signal codes of section 7 (the engine's
  error taxonomy is not in the sources).\<close>

datatype reject =
  NotFound | SelfParent | CycleDetected | ScopeViolation | DepthExceeded | NotDraggable
  | EmptyHistory | EmptyFuture | Busy

text \<open>Modelled from the spec: the result of \<^verbatim>\<open>validate\<close>, section 4.2 (the Validation
  Engine is not in the sources).\<close>

datatype verdict = Accept | Reject reject

text \<open>Modelled from the spec: a proposed mutation, \<^verbatim>\<open>kind\<close> with its arguments, section
  4.2: \<open>ReparentOp child proposedMother\<close> or \<open>RootifyOp child\<close>.\<close>

datatype mutation = ReparentOp int int | RootifyOp int

text \<open>Modelled from the spec: what the Corpus Index gives for a node, section 6
  (\<^verbatim>\<open>originalMotherOf\<close>, \<^verbatim>\<open>containerOf\<close>, \<^verbatim>\<open>isDraggable\<close>); the corpus loader is
  not in the sources.\<close>

record corpus_node =
  cn_originalMother :: "int option"
  cn_container :: string
  cn_draggable :: bool

text \<open>Modelled from the spec: a Mutation Log Entry, section 3: the child, the overlay
  state to restore on undo and the one to restore on redo (\<open>None\<close> is "no overlay",
  \<open>Some None\<close> is "rootified"), and the sequence number. The timestamp is left out: the
  model has no clock.\<close>

record log_entry =
  le_child :: int
  le_previous :: "int option option"
  le_new :: "int option option"
  le_seq :: nat

text \<open>Modelled from the spec: the engine's state: the Corpus Index, the Overlay Store (at
  most one entry per child), the two stacks of the Mutation Log (most recent first), the
  global version counter, and the two settings of section 4.2 (scope crossing permitted, the
  optional depth bound).\<close>

record engine =
  corpus :: "(int, corpus_node) alist"
  overlay :: "int \<rightharpoonup> int option"
  history :: "log_entry list"
  future :: "log_entry list"
  version :: nat
  allowCrossScope :: bool
  maxDepth :: "nat option"

text \<open>Modelled from the spec: the Effective Edge of section 3,
  \<^verbatim>\<open>effective(n) = overlay(n) if present else originalMother(n)\<close>.\<close>

definition effective :: "engine \<Rightarrow> int \<Rightarrow> int option" where
  "effective eng n =
     (case overlay eng n of
        Some target \<Rightarrow> target
      | None \<Rightarrow>
          (case DAList.lookup (corpus eng) n of
             None \<Rightarrow> None
           | Some node \<Rightarrow> cn_originalMother node))"

text \<open>Modelled from the spec: \<^verbatim>\<open>resolve(nodeId) -> motherId | null\<close>, section 4.1; an
  unknown identity is a \<open>NotFound\<close> error.\<close>

definition resolve :: "engine \<Rightarrow> int \<Rightarrow> reject + int option" where
  "resolve eng n =
     (if DAList.lookup (corpus eng) n = None then Inl NotFound else Inr (effective eng n))"

text \<open>Modelled from the spec: the cycle rule of section 4.2, "walk \<^verbatim>\<open>resolve\<close> upward from
  \<^verbatim>\<open>proposedMother\<close> (bounded by total node count ...); if \<^verbatim>\<open>child\<close> is encountered",
  with the bound as fuel.\<close>

fun ancestorWalk :: "engine \<Rightarrow> nat \<Rightarrow> int \<Rightarrow> int \<Rightarrow> bool" where
  "ancestorWalk eng 0 current child = False"
| "ancestorWalk eng (Suc fuel) current child =
     (if current = child then True
      else (case resolve eng current of
              Inr (Some mother) \<Rightarrow> ancestorWalk eng fuel mother child
            | _ \<Rightarrow> False))"

text \<open>Modelled from the spec: the depth of a node for the depth rule of section 4.2: the
  number of mother edges above it, counted by the same bounded walk.\<close>

fun depthWalk :: "engine \<Rightarrow> nat \<Rightarrow> int \<Rightarrow> nat" where
  "depthWalk eng 0 n = 0"
| "depthWalk eng (Suc fuel) n =
     (case resolve eng n of
        Inr (Some mother) \<Rightarrow> Suc (depthWalk eng fuel mother)
      | _ \<Rightarrow> 0)"

text \<open>Modelled from the spec: \<^verbatim>\<open>containerOf\<close>, section 6, for a node that may be
  unknown.\<close>

definition containerOf :: "engine \<Rightarrow> int \<Rightarrow> string option" where
  "containerOf eng n = map_option cn_container (DAList.lookup (corpus eng) n)"

text \<open>Modelled from the spec: \<^verbatim>\<open>validate\<close>, section 4.2, rules 1 to 5 in order (the
  first failure wins); \<^verbatim>\<open>Rootify\<close> skips rules 1 and 3 and succeeds for a draggable
  node.\<close>

fun validate :: "engine \<Rightarrow> mutation \<Rightarrow> verdict" where
  "validate eng (ReparentOp child proposedMother) =
     (if proposedMother = child then Reject SelfParent
      else if DAList.lookup (corpus eng) child = None
              \<or> DAList.lookup (corpus eng) proposedMother = None then Reject NotFound
      else if ancestorWalk eng (size (corpus eng)) proposedMother child then Reject CycleDetected
      else if \<not> allowCrossScope eng \<and> containerOf eng child \<noteq> containerOf eng proposedMother
        then Reject ScopeViolation
      else (case maxDepth eng of
              None \<Rightarrow> Accept
            | Some D \<Rightarrow>
                if depthWalk eng (size (corpus eng)) proposedMother + 1 > D
                then Reject DepthExceeded else Accept))"
| "validate eng (RootifyOp child) =
     (case DAList.lookup (corpus eng) child of
        None \<Rightarrow> Reject NotFound
      | Some node \<Rightarrow> if cn_draggable node then Accept else Reject NotDraggable)"

text \<open>Modelled from the spec: \<^verbatim>\<open>apply(child, newMother|null)\<close> of the Overlay Store,
  section 4.3, together with \<^verbatim>\<open>commit\<close> of the Mutation Log, section 4.4, as one step:
  record the overlay, bump the version, push the entry on \<open>history\<close> and clear
  \<open>future\<close>. The result is the new state and the changed edge, tagged \<open>User\<close>.\<close>

definition applyOverlay :: "engine \<Rightarrow> int \<Rightarrow> int option \<Rightarrow> engine \<times> EdgeDTO" where
  "applyOverlay eng child newMother =
     (let entry = \<lparr>le_child = child, le_previous = overlay eng child,
                   le_new = Some newMother, le_seq = version eng + 1\<rparr>
      in (eng\<lparr>overlay := (overlay eng)(child \<mapsto> newMother),
              history := entry # history eng,
              future := [],
              version := version eng + 1\<rparr>,
          \<lparr>edge_from = child, edge_to = newMother, edge_source = User\<rparr>))"

text \<open>Modelled from the spec: putting an overlay state back (undo and redo, section 4.4):
  the entry is set, or removed when the state is "no overlay"; the version is bumped.\<close>

definition restoreOverlay :: "engine \<Rightarrow> int \<Rightarrow> int option option \<Rightarrow> engine" where
  "restoreOverlay eng child state =
     eng\<lparr>overlay := (overlay eng)(child := state), version := version eng + 1\<rparr>"

text \<open>Modelled from the spec: the single changed edge that an undo or redo returns,
  section 4.4: the effective mother of the child, tagged \<open>Original\<close> when the child has no
  overlay and \<open>User\<close> otherwise.\<close>

definition changedEdge :: "engine \<Rightarrow> int \<Rightarrow> EdgeDTO" where
  "changedEdge eng child =
     \<lparr>edge_from = child, edge_to = effective eng child,
      edge_source = (if overlay eng child = None then Original else User)\<rparr>"

text \<open>Modelled from the spec: \<^verbatim>\<open>Reparent(child, newMother) -> Edge | RejectReason\<close>,
  section 6: validate, then apply; a rejection returns the state as it was.\<close>

definition Reparent :: "engine \<Rightarrow> int \<Rightarrow> int \<Rightarrow> (reject + EdgeDTO) \<times> engine" where
  "Reparent eng child newMother =
     (case validate eng (ReparentOp child newMother) of
        Reject reason \<Rightarrow> (Inl reason, eng)
      | Accept \<Rightarrow>
          (case applyOverlay eng child (Some newMother) of (eng', e) \<Rightarrow> (Inr e, eng')))"

text \<open>Modelled from the spec: \<^verbatim>\<open>Rootify(child) -> Edge | RejectReason\<close>, section 6.\<close>

definition Rootify :: "engine \<Rightarrow> int \<Rightarrow> (reject + EdgeDTO) \<times> engine" where
  "Rootify eng child =
     (case validate eng (RootifyOp child) of
        Reject reason \<Rightarrow> (Inl reason, eng)
      | Accept \<Rightarrow> (case applyOverlay eng child None of (eng', e) \<Rightarrow> (Inr e, eng')))"

text \<open>Modelled from the spec: \<^verbatim>\<open>Undo() -> Edge | EmptyHistory\<close>, sections 4.4 and 6: pop
  from \<open>history\<close>, put the previous overlay state back, push the entry on \<open>future\<close>.\<close>

definition Undo :: "engine \<Rightarrow> (reject + EdgeDTO) \<times> engine" where
  "Undo eng =
     (case history eng of
        [] \<Rightarrow> (Inl EmptyHistory, eng)
      | entry # rest \<Rightarrow>
          (let eng' = (restoreOverlay eng (le_child entry) (le_previous entry))
                        \<lparr>history := rest, future := entry # future eng\<rparr>
           in (Inr (changedEdge eng' (le_child entry)), eng')))"

text \<open>Modelled from the spec: \<^verbatim>\<open>Redo() -> Edge | EmptyFuture\<close>, sections 4.4 and 6: pop
  from \<open>future\<close>, put the new overlay state back, push the entry on \<open>history\<close>.\<close>

definition Redo :: "engine \<Rightarrow> (reject + EdgeDTO) \<times> engine" where
  "Redo eng =
     (case future eng of
        [] \<Rightarrow> (Inl EmptyFuture, eng)
      | entry # rest \<Rightarrow>
          (let eng' = (restoreOverlay eng (le_child entry) (le_new entry))
                        \<lparr>future := rest, history := entry # history eng\<rparr>
           in (Inr (changedEdge eng' (le_child entry)), eng')))"

text \<open>Modelled from the spec: a mutation request of either kind, section 6.\<close>

fun perform :: "engine \<Rightarrow> mutation \<Rightarrow> (reject + EdgeDTO) \<times> engine" where
  "perform eng (ReparentOp child newMother) = Reparent eng child newMother"
| "perform eng (RootifyOp child) = Rootify eng child"

text \<open>Modelled from the spec: the effective edges of all nodes of the corpus, as the mother
  map that \<^verbatim>\<open>GetTree\<close> returns for the whole corpus (sections 4.5 and 4.6): the map over
  which the engine's descendant sets are computed.\<close>

definition effectiveMap :: "engine \<Rightarrow> (int, int option) alist" where
  "effectiveMap eng =
     fold (\<lambda>entry m. DAList.update (fst entry) (effective eng (fst entry)) m)
       (DAList.impl_of (corpus eng)) DAList.empty"

text \<open>Modelled from the spec: one step of the upward walk of section 4.2 on an optional
  current node, its iterates being the nodes the walk meets (used to state the walk's
  reach).\<close>

definition motherStep :: "engine \<Rightarrow> int option \<Rightarrow> int option" where
  "motherStep eng current =
     (case current of
        None \<Rightarrow> None
      | Some n \<Rightarrow> (case resolve eng n of Inr (Some mother) \<Rightarrow> Some mother | _ \<Rightarrow> None))"

section \<open>Reference notions and examples\<close>

subsection \<open>The descendant relation of a mother map\<close>

text \<open>
  The descendant set in the specification's words (section 4.6, \<^verbatim>\<open>descendantsOf\<close>: the
  nodes reached from a node through children pointers, the inverse of the mother relation):
  \<open>d\<close> is a descendant of \<open>n\<close> when a chain of one or more mother edges of the map leads
  from \<open>d\<close> up to \<open>n\<close>. The traversal of the source, \<open>collectDescendants\<close>, is
  compared with it below. The remaining definitions of this subsection serve that proof:
  the nodes that occur as children, the edges of a children index, and the invariant of the
  traversal loop.
\<close>

definition motherEdges :: "(int, int option) alist \<Rightarrow> (int \<times> int) set" where
  "motherEdges mothers = {(c, m). DAList.lookup mothers c = Some (Some m)}"

definition descendantsOf :: "(int, int option) alist \<Rightarrow> int \<Rightarrow> int set" where
  "descendantsOf mothers n = {d. (d, n) \<in> (motherEdges mothers)\<^sup>+}"

definition allChildren :: "(int, int list) alist \<Rightarrow> int set" where
  "allChildren childrenMap = (\<Union>entry \<in> set (DAList.impl_of childrenMap). set (snd entry))"

definition childEdges :: "(int, int list) alist \<Rightarrow> (int \<times> int) set" where
  "childEdges childrenMap = {(p, c). c \<in> set (children_of childrenMap p)}"

definition collectInv :: "(int, int list) alist \<Rightarrow> int \<Rightarrow> int list \<Rightarrow> int set \<Rightarrow> bool" where
  "collectInv cm root stack visited \<longleftrightarrow>
     visited \<subseteq> (childEdges cm)\<^sup>+ `` {root} \<and>
     set stack \<subseteq> insert root visited \<and>
     (\<forall>v \<in> insert root visited. v \<in> set stack \<or> childEdges cm `` {v} \<subseteq> visited)"

subsection \<open>A small scope used in the examples\<close>

text \<open>
  Four clause nodes of one verse, with the base mothers \<open>1 \<rightarrow> null\<close>, \<open>2 \<rightarrow> 1\<close>,
  \<open>3 \<rightarrow> 1\<close>, \<open>4 \<rightarrow> 2\<close>; \<open>cyclicEdges\<close> is the same scope with the corrupt edge
  \<open>1 \<rightarrow> 4\<close>, which closes the cycle \<open>1 \<rightarrow> 4 \<rightarrow> 2 \<rightarrow> 1\<close>.
\<close>

definition demoNode :: "int \<Rightarrow> string \<Rightarrow> int option \<Rightarrow> ClauseNodeDTO" where
  "demoNode n verse mother =
     \<lparr>node_id = n, slotsStart = 10 * n, slotsEnd = 10 * n + 9, containerId = verse,
      inScope = True, draggable = True, originalMother = mother\<rparr>"

definition demoEdge :: "int \<Rightarrow> int option \<Rightarrow> EdgeDTO" where
  "demoEdge child mother = \<lparr>edge_from = child, edge_to = mother, edge_source = Original\<rparr>"

definition demoNodes :: "ClauseNodeDTO list" where
  "demoNodes =
     [demoNode 1 ''Genesis.1.1'' None, demoNode 2 ''Genesis.1.1'' (Some 1),
      demoNode 3 ''Genesis.1.1'' (Some 1), demoNode 4 ''Genesis.1.1'' (Some 2)]"

definition demoEdges :: "EdgeDTO list" where
  "demoEdges = [demoEdge 1 None, demoEdge 2 (Some 1), demoEdge 3 (Some 1), demoEdge 4 (Some 2)]"

definition cyclicEdges :: "EdgeDTO list" where
  "cyclicEdges =
     [demoEdge 1 (Some 4), demoEdge 2 (Some 1), demoEdge 3 (Some 1), demoEdge 4 (Some 2)]"

text \<open>
  A scope of two verses: node 1 in verse 1 and node 2 in verse 2, both roots.
\<close>

definition crossNodes :: "ClauseNodeDTO list" where
  "crossNodes = [demoNode 1 ''Genesis.1.1'' None, demoNode 2 ''Genesis.1.2'' None]"

definition crossEdges :: "EdgeDTO list" where
  "crossEdges = [demoEdge 1 None, demoEdge 2 None]"

text \<open>Modelled from the spec: the engine as it is after loading a list of nodes (the
  loader and the engine are not in the sources): the Corpus Index of the nodes, no overlay,
  an empty log, scope crossing not permitted and no depth bound, the defaults of section
  4.2.\<close>

definition corpusOf :: "ClauseNodeDTO list \<Rightarrow> (int, corpus_node) alist" where
  "corpusOf nodes =
     fold (\<lambda>node c. DAList.update (node_id node)
              \<lparr>cn_originalMother = originalMother node, cn_container = containerId node,
               cn_draggable = draggable node\<rparr> c)
       nodes DAList.empty"

definition freshEngine :: "ClauseNodeDTO list \<Rightarrow> engine" where
  "freshEngine nodes =
     \<lparr>corpus = corpusOf nodes, overlay = Map.empty, history = [], future = [], version = 0,
      allowCrossScope = False, maxDepth = None\<rparr>"

text \<open>
  A runtime and two failed responses for the examples: the body of the first is the JSON
  object with the single member \<open>reason\<close>, the body of the second is empty.
\<close>

definition demoBody :: string where
  \<open>demoBody = ''{"reason": "CycleDetected"}''\<close>

definition demoRuntime :: js_runtime where
  "demoRuntime =
     \<lparr>JSON_parse = (\<lambda>text. if text = demoBody
                               then Inr (JObject [(''reason'', JString ''CycleDetected'')])
                               else Inl (Error ''Unexpected token'')),
      nullPropertyError = Error ''Cannot read properties of null'',
      String_of = (\<lambda>v. ''[object Object]'')\<rparr>"

definition failedResponse :: "string \<Rightarrow> EdgeEnvelope Response" where
  "failedResponse body = \<lparr>resp_ok = False, resp_json = Inl (Error ''unused''), resp_text = body\<rparr>"

definition demoState :: tree_state where
  "demoState =
     \<lparr>st_loading = False, st_mutating = False, st_error = None, st_nodes = demoNodes,
      st_mothers = buildEdgeMap demoEdges, st_edited = {}\<rparr>"

text \<open>A stand-in for \<^verbatim>\<open>Number\<close> that reads the decimal digits 1 to 4.\<close>

definition demoNumber :: "string \<Rightarrow> int option" where
  "demoNumber text =
     (if text = ''1'' then Some 1 else if text = ''2'' then Some 2
      else if text = ''3'' then Some 3 else if text = ''4'' then Some 4 else None)"

text \<open>The drag of node 3 dropped onto its own row.\<close>

definition selfDrop :: DragEndEvent where
  "selfDrop = \<lparr>active_id = StrId ''drag-3'', over_id = Some (StrId ''drop-3'')\<rparr>"

text \<open>Modelled from the spec: the scenario of section 8 (the engine is not in the
  sources): on the four-node corpus, \<^verbatim>\<open>Reparent(3, 4)\<close> has been accepted;
  \<open>reparentedState\<close> is the client state after the returned edge has been applied.\<close>

definition reparented :: engine where
  "reparented = fst (applyOverlay (freshEngine demoNodes) 3 (Some 4))"

definition reparentedState :: tree_state where
  "reparentedState =
     applyEdgeUpdate demoState \<lparr>edge_from = 3, edge_to = Some 4, edge_source = User\<rparr>"

text \<open>A server that answers every request with the failed response of body \<open>demoBody\<close>.\<close>

definition failingFetch :: fetch where
  "failingFetch request = Inr (failedResponse demoBody)"

text \<open>The part of the client state that mirrors the engine is the same in two states.\<close>

definition sameMirror :: "tree_state \<Rightarrow> tree_state \<Rightarrow> bool" where
  "sameMirror st st' \<longleftrightarrow> st_mothers st' = st_mothers st \<and> st_edited st' = st_edited st"

section \<open>Properties\<close>

subsection \<open>The children index\<close>

lemma children_of_addChild:
  "set (children_of (addChild (c, mo) acc) M) =
     set (children_of acc M) \<union> (if mo = Some M then {c} else {})"
  by (cases mo) (auto simp: addChild_def children_of_def Let_def DAList.lookup_update)

lemma children_of_fold_addChild:
  "set (children_of (fold addChild xs acc) M) =
     set (children_of acc M) \<union> {c. (c, Some M) \<in> set xs}"
proof (induction xs arbitrary: acc)
  case Nil
  show ?case by simp
next
  case (Cons x xs)
  obtain c mo where x: "x = (c, mo)" by (cases x)
  show ?case
    unfolding fold_Cons o_apply Cons.IH x children_of_addChild
    by auto
qed

lemma children_of_buildChildrenMap:
  "set (children_of (buildChildrenMap m) M) = {c. DAList.lookup m c = Some (Some M)}"
proof -
  have "(c, Some M) \<in> set (DAList.impl_of m) \<longleftrightarrow> DAList.lookup m c = Some (Some M)" for c
    by (simp add: DAList.lookup.rep_eq)
  then show ?thesis
    unfolding buildChildrenMap_def children_of_fold_addChild
    by (simp add: children_of_def)
qed

subsection \<open>Descendant collection: termination and result\<close>

lemma finite_allChildren: "finite (allChildren cm)"
  by (simp add: allChildren_def)

lemma children_of_subset: "set (children_of cm x) \<subseteq> allChildren cm"
proof (cases "DAList.lookup cm x")
  case None
  then show ?thesis by (simp add: children_of_def)
next
  case (Some cs)
  then have "map_of (DAList.impl_of cm) x = Some cs"
    by (simp add: DAList.lookup.rep_eq)
  then have "(x, cs) \<in> set (DAList.impl_of cm)"
    by (rule map_of_SomeD)
  then have "set cs \<subseteq> allChildren cm"
    unfolding allChildren_def by force
  then show ?thesis using Some by (simp add: children_of_def)
qed

lemma snd_visitChildren: "snd (visitChildren cs (st, v)) = v \<union> set cs"
  by (induction cs arbitrary: st v) auto

lemma set_fst_visitChildren: "set (fst (visitChildren cs (st, v))) = set st \<union> (set cs - v)"
  by (induction cs arbitrary: st v) auto

lemma visitChildren_measure:
  "finite U \<Longrightarrow> set cs \<subseteq> U \<Longrightarrow>
   length (fst (visitChildren cs (st, v))) + card (U - snd (visitChildren cs (st, v)))
     = length st + card (U - v)"
proof (induction cs arbitrary: st v)
  case Nil
  then show ?case by simp
next
  case (Cons c cs)
  show ?case
  proof (cases "c \<in> v")
    case True
    with Cons show ?thesis by simp
  next
    case False
    from Cons.prems have cU: "c \<in> U" by simp
    have "U - v = insert c (U - insert c v)" using False cU by auto
    moreover have "c \<notin> U - insert c v" by simp
    moreover have "finite (U - insert c v)" using Cons.prems by simp
    ultimately have "card (U - v) = Suc (card (U - insert c v))"
      by (metis card_insert_disjoint)
    with Cons False show ?thesis by simp
  qed
qed

lemma collectLoop_rule:
  assumes step: "\<And>cur rest vis. I (cur # rest) vis \<Longrightarrow>
            I (fst (visitChildren (children_of cm cur) (rest, vis)))
              (snd (visitChildren (children_of cm cur) (rest, vis)))"
    and init: "I stack visited"
  shows "\<exists>V. collectLoop cm stack visited = Some V \<and> I [] V"
  using init
proof (induction "length stack + card (allChildren cm - visited)"
    arbitrary: stack visited rule: less_induct)
  case less
  show ?case
  proof (cases stack)
    case Nil
    with less.prems show ?thesis by (simp add: collectLoop.simps)
  next
    case (Cons cur rest)
    let ?r = "visitChildren (children_of cm cur) (rest, visited)"
    have m: "length (fst ?r) + card (allChildren cm - snd ?r)
               = length rest + card (allChildren cm - visited)"
      by (rule visitChildren_measure [OF finite_allChildren children_of_subset])
    have "I (fst ?r) (snd ?r)" using step less.prems Cons by simp
    moreover have "length (fst ?r) + card (allChildren cm - snd ?r)
                     < length stack + card (allChildren cm - visited)"
      using m Cons by simp
    ultimately have "\<exists>V. collectLoop cm (fst ?r) (snd ?r) = Some V \<and> I [] V"
      using less.hyps by blast
    moreover have "collectLoop cm stack visited = collectLoop cm (fst ?r) (snd ?r)"
      by (subst collectLoop.simps) (simp add: Cons split: prod.splits)
    ultimately show ?thesis by simp
  qed
qed

lemma collectLoop_terminates: "\<exists>V. collectLoop cm stack visited = Some V"
  using collectLoop_rule [where I = "\<lambda>_ _. True" and cm = cm and stack = stack and visited = visited]
  by auto

lemma collectInv_step:
  assumes "collectInv cm root (cur # rest) vis"
  shows "collectInv cm root (fst (visitChildren (children_of cm cur) (rest, vis)))
           (snd (visitChildren (children_of cm cur) (rest, vis)))"
proof -
  let ?E = "childEdges cm"
  let ?cs = "set (children_of cm cur)"
  have succ: "?E `` {cur} = ?cs" by (auto simp: childEdges_def)
  from assms have vis: "vis \<subseteq> ?E\<^sup>+ `` {root}"
    and st: "set (cur # rest) \<subseteq> insert root vis"
    and cl: "\<forall>v \<in> insert root vis. v \<in> set (cur # rest) \<or> ?E `` {v} \<subseteq> vis"
    by (auto simp: collectInv_def)
  have cur: "cur = root \<or> (root, cur) \<in> ?E\<^sup>+" using st vis by auto
  have new: "?cs \<subseteq> ?E\<^sup>+ `` {root}"
  proof
    fix c assume "c \<in> ?cs"
    then have "(cur, c) \<in> ?E" by (simp add: childEdges_def)
    from cur this have "(root, c) \<in> ?E\<^sup>+"
      by (metis r_into_trancl' trancl_into_trancl)
    then show "c \<in> ?E\<^sup>+ `` {root}" by simp
  qed
  show ?thesis
    unfolding collectInv_def snd_visitChildren set_fst_visitChildren
  proof (intro conjI ballI)
    show "vis \<union> ?cs \<subseteq> ?E\<^sup>+ `` {root}" using vis new by simp
    show "set rest \<union> (?cs - vis) \<subseteq> insert root (vis \<union> ?cs)" using st by auto
  next
    fix v assume v: "v \<in> insert root (vis \<union> ?cs)"
    show "v \<in> set rest \<union> (?cs - vis) \<or> ?E `` {v} \<subseteq> vis \<union> ?cs"
    proof (cases "v = cur")
      case True
      then show ?thesis using succ by simp
    next
      case False
      show ?thesis
      proof (cases "v \<in> insert root vis")
        case True
        with cl False show ?thesis by auto
      next
        case False
        with v show ?thesis by auto
      qed
    qed
  qed
qed

lemma collectDescendants_trancl:
  "collectDescendants root cm = Some ((childEdges cm)\<^sup>+ `` {root})"
proof -
  let ?E = "childEdges cm"
  have "collectInv cm root [root] {}" by (simp add: collectInv_def)
  from collectLoop_rule [where I = "collectInv cm root", OF collectInv_step this]
  obtain V where V: "collectLoop cm [root] {} = Some V" and inv: "collectInv cm root [] V"
    by blast
  from inv have sub: "V \<subseteq> ?E\<^sup>+ `` {root}"
    and cl: "\<forall>v \<in> insert root V. ?E `` {v} \<subseteq> V"
    by (auto simp: collectInv_def)
  have "d \<in> V" if "(root, d) \<in> ?E\<^sup>+" for d
    using that
  proof (induction rule: trancl_induct)
    case (base y)
    then show ?case using cl by auto
  next
    case (step y z)
    then show ?case using cl by auto
  qed
  with sub have "V = ?E\<^sup>+ `` {root}" by auto
  with V show ?thesis by (simp add: collectDescendants_def)
qed

lemma depthLoop_terminates: "\<exists>d. depthLoop mothers nodesById depth current seen = Some d"
proof (induction "card (fst ` set (DAList.impl_of nodesById) - seen)"
    arbitrary: depth current seen rule: less_induct)
  case less
  let ?K = "fst ` set (DAList.impl_of nodesById)"
  show ?case
  proof (cases current)
    case None
    then show ?thesis by (simp add: depthLoop.simps)
  next
    case (Some cur)
    show ?thesis
    proof (cases "DAList.lookup nodesById cur \<noteq> None \<and> cur \<notin> seen")
      case False
      with Some show ?thesis by (subst depthLoop.simps) auto
    next
      case True
      then have "map_of (DAList.impl_of nodesById) cur \<noteq> None"
        by (simp add: DAList.lookup.rep_eq)
      then have "cur \<in> ?K" by (simp add: map_of_eq_None_iff)
      with True have "card (?K - insert cur seen) < card (?K - seen)"
        by (intro psubset_card_mono) auto
      from less.hyps [OF this]
      obtain d where "depthLoop mothers nodesById (depth + 1) (mother_of mothers cur)
                        (insert cur seen) = Some d"
        by blast
      with Some True show ?thesis by (subst depthLoop.simps) simp
    qed
  qed
qed

lemma those_map_Some:
  "(\<And>x. x \<in> set xs \<Longrightarrow> \<exists>y. f x = Some y) \<Longrightarrow> \<exists>ys. those (map f xs) = Some ys"
proof (induction xs)
  case Nil
  show ?case by simp
next
  case (Cons x xs)
  then obtain y ys where "f x = Some y" "those (map f xs) = Some ys" by fastforce
  then show ?case by simp
qed

lemma buildRenderTree_terminates: "\<exists>t. buildRenderTree nodes mothers edited = Some t"
  unfolding buildRenderTree_def
proof (rule those_map_Some)
  fix x :: ClauseNodeDTO
  obtain d where "computeDepth mothers (nodesById_of nodes) (node_id x) = Some d"
    unfolding computeDepth_def using depthLoop_terminates by blast
  then show "\<exists>y. renderNode mothers (nodesById_of nodes) edited x = Some y"
    by (simp add: renderNode_def)
qed

lemma childEdges_buildChildrenMap: "childEdges (buildChildrenMap m) = (motherEdges m)\<inverse>"
  using children_of_buildChildrenMap [of m]
  by (auto simp: childEdges_def motherEdges_def)

lemma collectDescendants_descendantsOf:
  "collectDescendants n (buildChildrenMap m) = Some (descendantsOf m n)"
proof -
  have "((motherEdges m)\<inverse>)\<^sup>+ `` {n} = descendantsOf m n"
    by (auto simp: descendantsOf_def trancl_converse)
  then show ?thesis
    by (simp add: collectDescendants_trancl childEdges_buildChildrenMap)
qed

lemma fold_addTarget:
  "fold (addTarget forbidden child) xs acc =
     acc \<union> {c. \<exists>cand. (c, cand) \<in> set xs \<and> c \<notin> forbidden \<and> draggable cand \<and> c < child}"
proof (induction xs arbitrary: acc)
  case Nil
  show ?case by simp
next
  case (Cons x xs)
  obtain c cand where x: "x = (c, cand)" by (cases x)
  show ?case
    unfolding fold_Cons o_apply Cons.IH x
    by (auto simp: addTarget_def)
qed

lemma in_impl_of_iff: "(k, v) \<in> set (DAList.impl_of m) \<longleftrightarrow> DAList.lookup m k = Some v"
  by (simp add: DAList.lookup.rep_eq)

lemma computeDropTargets_Some:
  assumes "DAList.lookup nodesById child = Some node"
  shows "computeDropTargets nodesById mothers child =
     Some \<lparr>nodeTargets =
              {c. (\<exists>cand. DAList.lookup nodesById c = Some cand \<and> draggable cand) \<and>
                  c \<notin> insert child (descendantsOf mothers child) \<and> c < child},
            allowRoot = True\<rparr>"
  using assms
  by (auto simp: computeDropTargets_def collectDescendants_descendantsOf fold_addTarget
      in_impl_of_iff Let_def)

subsection \<open>The engine's bounded walk reaches every ancestor\<close>

lemma lookup_fold_update:
  "DAList.lookup (fold (\<lambda>entry m. DAList.update (fst entry) (f (fst entry)) m) xs acc) n =
     (if n \<in> fst ` set xs then Some (f n) else DAList.lookup acc n)"
  by (induction xs arbitrary: acc) (auto simp: DAList.lookup_update)

lemma known_iff: "n \<in> fst ` set (DAList.impl_of c) \<longleftrightarrow> DAList.lookup c n \<noteq> None"
  by (simp add: DAList.lookup.rep_eq map_of_eq_None_iff)

lemma lookup_effectiveMap:
  "DAList.lookup (effectiveMap eng) n =
     (if DAList.lookup (corpus eng) n = None then None else Some (effective eng n))"
  unfolding effectiveMap_def lookup_fold_update known_iff by simp

lemma motherEdges_effectiveMap:
  "(c, m) \<in> motherEdges (effectiveMap eng) \<longleftrightarrow> motherStep eng (Some c) = Some m"
  by (auto simp: motherEdges_def lookup_effectiveMap motherStep_def resolve_def
      split: option.splits if_splits)

lemma motherStep_None [simp]: "(motherStep eng ^^ k) None = None"
  by (induction k) (simp_all add: motherStep_def)

lemma rtrancl_funpow:
  assumes "(x, y) \<in> (motherEdges (effectiveMap eng))\<^sup>*"
  shows "\<exists>k. (motherStep eng ^^ k) (Some x) = Some y"
  using assms
proof (induction rule: rtrancl_induct)
  case base
  have "(motherStep eng ^^ 0) (Some x) = Some x" by simp
  then show ?case by blast
next
  case (step y z)
  then obtain k where "(motherStep eng ^^ k) (Some x) = Some y" by blast
  moreover have "motherStep eng (Some y) = Some z"
    using step.hyps(2) by (simp add: motherEdges_effectiveMap)
  ultimately have "(motherStep eng ^^ Suc k) (Some x) = Some z" by simp
  then show ?case by blast
qed

lemma funpow_bound:
  assumes reach: "(motherStep eng ^^ k) (Some x) = Some y"
    and known: "DAList.lookup (corpus eng) y \<noteq> None"
  shows "\<exists>k' < size (corpus eng). (motherStep eng ^^ k') (Some x) = Some y"
proof -
  define f where "f i = (motherStep eng ^^ i) (Some x)" for i
  define k0 where "k0 = (LEAST i. f i = Some y)"
  let ?K = "fst ` set (DAList.impl_of (corpus eng))"
  have "f k = Some y" using reach by (simp add: f_def)
  then have k0: "f k0 = Some y" and least: "\<And>i. f i = Some y \<Longrightarrow> k0 \<le> i"
    unfolding k0_def by (auto intro: LeastI Least_le)
  have add: "f (i + j) = (motherStep eng ^^ j) (f i)" for i j
    unfolding f_def add.commute [of i j] funpow_add by simp
  have inj: "inj_on f {..k0}"
  proof (rule inj_onI)
    fix i j assume ij: "i \<in> {..k0}" "j \<in> {..k0}" and eq: "f i = f j"
    have False if lt: "a < b" and b: "b \<le> k0" and e: "f a = f b" for a b
    proof -
      have "f (a + (k0 - b)) = (motherStep eng ^^ (k0 - b)) (f b)" by (simp add: add e)
      also have "\<dots> = f (b + (k0 - b))" by (simp only: add)
      also have "\<dots> = Some y" using b k0 by simp
      finally have "k0 \<le> a + (k0 - b)" by (rule least)
      with lt b show False by simp
    qed
    from this [of i j] this [of j i] ij eq show "i = j"
      by (cases i j rule: linorder_cases) auto
  qed
  have sub: "f ` {..k0} \<subseteq> Some ` ?K"
  proof
    fix v assume "v \<in> f ` {..k0}"
    then obtain i where i: "i \<le> k0" and v: "v = f i" by auto
    show "v \<in> Some ` ?K"
    proof (cases "i = k0")
      case True
      with v k0 known show ?thesis by (simp add: known_iff)
    next
      case False
      with i have "Suc i \<le> k0" by simp
      have "f (Suc i + (k0 - Suc i)) = (motherStep eng ^^ (k0 - Suc i)) (f (Suc i))"
        by (simp only: add)
      with \<open>Suc i \<le> k0\<close> k0 have "(motherStep eng ^^ (k0 - Suc i)) (f (Suc i)) = Some y"
        by simp
      then have "f (Suc i) \<noteq> None" by (cases "f (Suc i)") auto
      moreover have "f (Suc i) = motherStep eng (f i)" by (simp add: f_def)
      ultimately obtain z where z: "f i = Some z" and "resolve eng z \<noteq> Inl NotFound"
        by (auto simp: motherStep_def split: option.splits sum.splits)
      then have "DAList.lookup (corpus eng) z \<noteq> None"
        by (auto simp: resolve_def split: if_splits)
      with z v show ?thesis by (simp add: known_iff)
    qed
  qed
  have "card {..k0} \<le> card (Some ` ?K)"
    by (rule card_inj_on_le [OF inj sub]) simp
  also have "\<dots> \<le> card ?K" by (simp add: card_image_le)
  also have "\<dots> \<le> length (DAList.impl_of (corpus eng))"
    by (metis card_length length_map set_map)
  finally have "k0 < size (corpus eng)" by (simp add: size_alist_def)
  with k0 show ?thesis by (auto simp: f_def)
qed

lemma ancestorWalk_funpow:
  "(motherStep eng ^^ k) (Some x) = Some c \<Longrightarrow> k < fuel \<Longrightarrow> ancestorWalk eng fuel x c"
proof (induction fuel arbitrary: k x)
  case 0
  then show ?case by simp
next
  case (Suc fuel)
  show ?case
  proof (cases "x = c")
    case True
    then show ?thesis by simp
  next
    case False
    with Suc.prems obtain k' where k': "k = Suc k'" by (cases k) auto
    with Suc.prems have r: "(motherStep eng ^^ k') (motherStep eng (Some x)) = Some c"
      by (simp add: funpow_swap1)
    then obtain m where m: "motherStep eng (Some x) = Some m"
      by (cases "motherStep eng (Some x)") auto
    with r Suc.prems k' have "ancestorWalk eng fuel m c" by (intro Suc.IH [of k']) auto
    moreover from m have "resolve eng x = Inr (Some m)"
      by (auto simp: motherStep_def split: sum.splits option.splits)
    ultimately show ?thesis using False by simp
  qed
qed

lemma descendant_walk:
  assumes "d \<in> descendantsOf (effectiveMap eng) child"
    and "DAList.lookup (corpus eng) child \<noteq> None"
  shows "ancestorWalk eng (size (corpus eng)) d child"
proof -
  from assms(1) have "(d, child) \<in> (motherEdges (effectiveMap eng))\<^sup>*"
    by (simp add: descendantsOf_def trancl_into_rtrancl)
  then obtain k where "(motherStep eng ^^ k) (Some d) = Some child"
    using rtrancl_funpow by blast
  from funpow_bound [OF this assms(2)] obtain k'
    where "k' < size (corpus eng)" "(motherStep eng ^^ k') (Some d) = Some child" by blast
  then show ?thesis using ancestorWalk_funpow by blast
qed

lemma descendant_known:
  assumes "d \<in> descendantsOf (effectiveMap eng) child"
  shows "DAList.lookup (corpus eng) d \<noteq> None"
proof -
  from assms obtain m where "(d, m) \<in> motherEdges (effectiveMap eng)"
    unfolding descendantsOf_def by (auto dest: tranclD)
  then show ?thesis by (auto simp: motherEdges_def lookup_effectiveMap split: if_splits)
qed

subsection \<open>Requests and the hook\<close>

lemma tryBlock_throws: "\<exists>thrown. tryBlock rt text = Inl thrown"
  by (simp add: tryBlock_def split: sum.splits)

lemma handleResponse_not_ok:
  assumes "\<not> resp_ok response"
  shows "handleResponse rt response =
     Inl (Error (if resp_text response = [] then ''Request failed'' else resp_text response))"
proof -
  obtain thrown :: js_thrown
    where "tryBlock rt (resp_text response) = (Inl thrown :: js_thrown + 'a)"
    using tryBlock_throws by blast
  with assms show ?thesis
    by (simp add: handleResponse_def)
qed

lemma handleMutation_rethrows:
  "snd (handleMutation st result) \<noteq> None \<Longrightarrow> sameMirror st (fst (handleMutation st result))"
  by (cases result) (simp_all add: handleMutation_def sameMirror_def Let_def)

lemma handleMutation_thrown: "snd (handleMutation st (Inl thrown)) = Some thrown"
  by (simp add: handleMutation_def Let_def)

lemma failed_request:
  "\<not> resp_ok res \<Longrightarrow>
   snd (handleMutation st (map_sum id env_edge (handleResponse rt res))) =
     Some (Error (if resp_text res = [] then ''Request failed'' else resp_text res))"
  by (simp add: handleResponse_not_ok handleMutation_thrown)

subsection \<open>The engine\<close>

lemma perform_reject: "fst (perform eng op) = Inl r \<Longrightarrow> snd (perform eng op) = eng"
  by (cases op) (auto simp: Reparent_def Rootify_def split: verdict.splits prod.splits)

lemma Undo_reject: "fst (Undo eng) = Inl r \<Longrightarrow> snd (Undo eng) = eng"
  by (auto simp: Undo_def Let_def split: list.splits)

lemma Redo_reject: "fst (Redo eng) = Inl r \<Longrightarrow> snd (Redo eng) = eng"
  by (auto simp: Redo_def Let_def split: list.splits)

lemma computeDropTargets_excludes:
  assumes "d \<in> descendantsOf mothers child \<union> {child}"
  shows "\<exists>targets. computeDropTargets nodesById mothers child = Some targets \<and>
           d \<notin> nodeTargets targets"
proof (cases "DAList.lookup nodesById child")
  case None
  then show ?thesis by (simp add: computeDropTargets_def)
next
  case (Some node)
  show ?thesis
    unfolding computeDropTargets_Some [OF Some] using assms by auto
qed

lemma size_corpus_pos: "DAList.lookup c n \<noteq> None \<Longrightarrow> 0 < size c"
  by (cases "DAList.impl_of c") (simp_all add: size_alist_def DAList.lookup.rep_eq)

lemma cycle_rule_fires:
  assumes "DAList.lookup (corpus eng) child \<noteq> None"
    and "d \<in> descendantsOf (effectiveMap eng) child \<union> {child}"
  shows "ancestorWalk eng (size (corpus eng)) d child"
proof (cases "d = child")
  case True
  from size_corpus_pos [OF assms(1)] obtain n where "size (corpus eng) = Suc n"
    by (cases "size (corpus eng)") auto
  with True show ?thesis by simp
next
  case False
  with assms show ?thesis by (simp add: descendant_walk)
qed

lemma Reparent_descendant:
  assumes "DAList.lookup (corpus eng) child \<noteq> None"
    and "d \<in> descendantsOf (effectiveMap eng) child \<union> {child}"
  shows "Reparent eng child d = (Inl (if d = child then SelfParent else CycleDetected), eng)"
proof (cases "d = child")
  case True
  then show ?thesis by (simp add: Reparent_def)
next
  case False
  with assms have "DAList.lookup (corpus eng) d \<noteq> None" by (simp add: descendant_known)
  with False assms(1) cycle_rule_fires [OF assms] show ?thesis
    by (simp add: Reparent_def)
qed

lemma self_not_target:
  "\<exists>targets. computeDropTargets nodesById mothers n = Some targets \<and> n \<notin> nodeTargets targets"
proof (cases "DAList.lookup nodesById n")
  case None
  then show ?thesis by (simp add: computeDropTargets_def)
next
  case (Some node)
  show ?thesis
    unfolding computeDropTargets_Some [OF Some] by simp
qed

lemma parseDropId_not_root: "parseDropId Number oid = Some n \<Longrightarrow> oid \<noteq> StrId ''root-drop''"
  by (auto simp: parseDropId_def)

lemma handleDrop_self:
  assumes "parseDragId Number (active_id event) = Some n"
    and "over_id event = Some oid" and "parseDropId Number oid = Some n"
  shows "handleDrop Number dropTargets event awaited =
     (case dropTargets of
        None \<Rightarrow> [ResetDragState]
      | Some targets \<Rightarrow> [ReportError SameNode, SetPendingAction None, ResetDragState])"
  using assms parseDropId_not_root [OF assms(3)]
  by (simp add: handleDrop_def split: option.splits)

lemma handleDragStart_Some:
  assumes "parseDragId Number active = Some n"
  shows "\<exists>targets. handleDragStart Number nodesById mothers active = Some targets"
  using assms self_not_target [of nodesById mothers n]
  by (auto simp: handleDragStart_def)

lemma perform_accept:
  assumes "perform eng op = (Inr e, eng1)"
  shows "\<exists>newMother.
     (eng1, e) = applyOverlay eng (edge_from e) newMother \<and> edge_to e = newMother"
proof (cases op)
  case (ReparentOp child m)
  with assms show ?thesis
    by (auto simp: Reparent_def applyOverlay_def Let_def split: verdict.splits)
next
  case (RootifyOp child)
  with assms show ?thesis
    by (auto simp: Rootify_def applyOverlay_def Let_def split: verdict.splits)
qed

lemma effective_cong:
  "overlay a = overlay b \<Longrightarrow> corpus a = corpus b \<Longrightarrow> effective a n = effective b n"
  by (simp add: effective_def split: option.splits)

lemma Undo_applyOverlay:
  assumes "(eng1, e) = applyOverlay eng child newMother"
  shows "fst (Undo eng1) = Inr (changedEdge eng child)"
    and "overlay (snd (Undo eng1)) = overlay eng"
    and "corpus (snd (Undo eng1)) = corpus eng"
    and "history (snd (Undo eng1)) = history eng"
    and "future (snd (Undo eng1)) =
           [\<lparr>le_child = child, le_previous = overlay eng child, le_new = Some newMother,
             le_seq = version eng + 1\<rparr>]"
  using assms
  by (simp_all add: applyOverlay_def Undo_def restoreOverlay_def changedEdge_def Let_def
      effective_def cong: option.case_cong)

lemma Redo_Undo_applyOverlay:
  assumes "(eng1, e) = applyOverlay eng child newMother"
  shows "fst (Redo (snd (Undo eng1))) = Inr e"
    and "overlay (snd (Redo (snd (Undo eng1)))) = overlay eng1"
    and "corpus (snd (Redo (snd (Undo eng1)))) = corpus eng1"
    and "history (snd (Redo (snd (Undo eng1)))) = history eng1"
    and "future (snd (Redo (snd (Undo eng1)))) = future eng1"
  using assms
  by (simp_all add: applyOverlay_def Undo_def Redo_def restoreOverlay_def changedEdge_def
      Let_def effective_def cong: option.case_cong)

lemma new_mutation_clears_redo:
  "perform eng op = (Inr e, eng1) \<Longrightarrow> Redo eng1 = (Inl EmptyFuture, eng1)"
  by (cases op)
    (auto simp: Reparent_def Rootify_def applyOverlay_def Redo_def Let_def
      split: verdict.splits)

lemma Reparent_scope_violation:
  assumes "mother \<noteq> child"
    and "DAList.lookup (corpus eng) child \<noteq> None" and "DAList.lookup (corpus eng) mother \<noteq> None"
    and "\<not> ancestorWalk eng (size (corpus eng)) mother child"
    and "\<not> allowCrossScope eng" and "containerOf eng child \<noteq> containerOf eng mother"
  shows "Reparent eng child mother = (Inl ScopeViolation, eng)"
  using assms by (simp add: Reparent_def)

subsection \<open>Evaluation of the examples\<close>

lemmas demo_defs = demoNodes_def demoEdges_def cyclicEdges_def demoNode_def demoEdge_def
lemmas alist_eval = DAList.update.rep_eq DAList.empty.rep_eq DAList.lookup.rep_eq
lemmas tree_eval = buildEdgeMap_def buildChildrenMap_def addChild_def children_of_def
  nodesById_of_def mother_of_def

lemmas engine_eval = corpusOf_def freshEngine_def effective_def resolve_def containerOf_def
  Reparent_def Rootify_def Undo_def Redo_def applyOverlay_def restoreOverlay_def
  changedEdge_def size_alist_def
lemmas api_eval = handleResponse_def tryBlock_def reason_of_def reasonError_def
  demoRuntime_def demoBody_def failedResponse_def
lemmas drag_eval = parseDragId_def parseDropId_def demoNumber_def selfDrop_def

lemma cross_container_engine:
  "Reparent (freshEngine crossNodes) 2 1 = (Inl ScopeViolation, freshEngine crossNodes)"
  by (simp add: engine_eval crossNodes_def demo_defs alist_eval)

section \<open>Claims about the client mirror\<close>

text \<open>
  Claim C10. The children index is the exact inverse of the mother map: for every mothers
  map \<open>m\<close> and all nodes \<open>c\<close> and \<open>M\<close>, \<open>c\<close> is an element of the list that
  \<^verbatim>\<open>buildChildrenMap(m).get(M)\<close> returns if and only if \<open>m\<close> maps \<open>c\<close> to the non-null
  mother \<open>M\<close>; in particular a node whose mother is null (or that has no entry) is in no
  children list.
\<close>

theorem children_index_inverse:
  "((\<exists>cs. DAList.lookup (buildChildrenMap m) M = Some cs \<and> c \<in> set cs)
      \<longleftrightarrow> DAList.lookup m c = Some (Some M)) \<and>
   (mother_of m c = None \<longrightarrow>
      (\<forall>M' cs. DAList.lookup (buildChildrenMap m) M' = Some cs \<longrightarrow> c \<notin> set cs))"
proof -
  have iff: "(\<exists>cs. DAList.lookup (buildChildrenMap m) M' = Some cs \<and> c \<in> set cs)
      \<longleftrightarrow> DAList.lookup m c = Some (Some M')" for M'
  proof -
    have "c \<in> set (children_of (buildChildrenMap m) M') \<longleftrightarrow>
            DAList.lookup m c = Some (Some M')"
      by (simp add: children_of_buildChildrenMap)
    then show ?thesis
      by (cases "DAList.lookup (buildChildrenMap m) M'") (simp_all add: children_of_def)
  qed
  have "\<not> (\<exists>cs. DAList.lookup (buildChildrenMap m) M' = Some cs \<and> c \<in> set cs)"
    if "mother_of m c = None" for M'
    using that unfolding iff by (auto simp: mother_of_def split: option.splits)
  with iff show ?thesis by blast
qed

text \<open>
  The index of the example scope: node 1 has the children 2 and 3, and the root 1 itself is in
  no list.
\<close>

theorem children_index_inverse_witness:
  "DAList.lookup (buildChildrenMap (buildEdgeMap demoEdges)) 1 = Some [2, 3] \<and>
   DAList.lookup (buildEdgeMap demoEdges) 3 = Some (Some 1) \<and>
   mother_of (buildEdgeMap demoEdges) 1 = None \<and>
   \<not> (\<exists>M' cs. DAList.lookup (buildChildrenMap (buildEdgeMap demoEdges)) M' = Some cs \<and>
          1 \<in> set cs)"
  using children_index_inverse [of "buildEdgeMap demoEdges" 1 3]
    children_index_inverse [of "buildEdgeMap demoEdges" 1 1]
  by (simp add: demo_defs alist_eval tree_eval)

text \<open>
  Claim C6. Traversal termination on corrupt state: for every children index and every mother
  map, cyclic ones included, \<^verbatim>\<open>collectDescendants\<close> returns, the depth walk
  \<^verbatim>\<open>computeDepth\<close> returns for every node, and so \<^verbatim>\<open>buildRenderTree\<close> returns. The
  loops are modelled without any built-in bound, so that returning is what is proved.
\<close>

theorem traversals_terminate:
  "(\<exists>V. collectDescendants root childrenMap = Some V) \<and>
   (\<exists>d. computeDepth mothers nodesById n = Some d) \<and>
   (\<exists>t. buildRenderTree nodes mothers edited = Some t)"
  using collectLoop_terminates depthLoop_terminates buildRenderTree_terminates
  by (simp add: collectDescendants_def computeDepth_def)

text \<open>
  On the cyclic scope \<open>1 \<rightarrow> 4 \<rightarrow> 2 \<rightarrow> 1\<close> the collection from node 1 stops with all four
  nodes (node 1 is its own descendant there) and the depth walk of node 1 stops after three
  steps, when it meets the node 4 again.
\<close>

theorem traversals_terminate_witness:
  "collectDescendants 1 (buildChildrenMap (buildEdgeMap cyclicEdges)) = Some {1, 2, 3, 4} \<and>
   computeDepth (buildEdgeMap cyclicEdges) (nodesById_of demoNodes) 1 = Some 3 \<and>
   (\<exists>t. buildRenderTree demoNodes (buildEdgeMap cyclicEdges) {} = Some t)"
  using traversals_terminate [of 1 "buildChildrenMap (buildEdgeMap cyclicEdges)"
      "buildEdgeMap cyclicEdges" "nodesById_of demoNodes" 1 demoNodes "{}"]
  by (simp add: demo_defs alist_eval tree_eval collectDescendants_def collectLoop.simps
      computeDepth_def depthLoop.simps insert_commute)

text \<open>
  Claim C1, as amended. For every node \<open>child\<close> present in the loaded scope,
  \<^verbatim>\<open>computeDropTargets(child)\<close> returns, allows the root drop, and its
  \<^verbatim>\<open>nodeTargets\<close> is exactly the set of draggable nodes \<open>c\<close> of the scope that are not in
  \<open>descendantsOf(child) \<union> {child}\<close> and whose identity is smaller than that of the child:
  the forbidden set is the full descendant set under the current mother map plus the child
  itself, and the guard \<^verbatim>\<open>candidateId >= childId\<close> excludes every later node besides.
\<close>

theorem drop_targets_characterised:
  assumes "DAList.lookup nodesById child = Some node"
  shows "computeDropTargets nodesById mothers child =
     Some \<lparr>nodeTargets =
              {c. (\<exists>cand. DAList.lookup nodesById c = Some cand \<and> draggable cand) \<and>
                  c \<notin> descendantsOf mothers child \<union> {child} \<and> c < child},
            allowRoot = True\<rparr>"
  using computeDropTargets_Some [OF assms, of mothers] by simp

text \<open>In the example scope, node 2 (whose only descendant is node 4) can only go to node 1.\<close>

theorem drop_targets_characterised_witness:
  "DAList.lookup (nodesById_of demoNodes) 2 = Some (demoNode 2 ''Genesis.1.1'' (Some 1)) \<and>
   computeDropTargets (nodesById_of demoNodes) (buildEdgeMap demoEdges) 2 =
     Some \<lparr>nodeTargets =
              {c. (\<exists>cand. DAList.lookup (nodesById_of demoNodes) c = Some cand \<and> draggable cand) \<and>
                  c \<notin> descendantsOf (buildEdgeMap demoEdges) 2 \<union> {2} \<and> c < 2},
            allowRoot = True\<rparr> \<and>
   computeDropTargets (nodesById_of demoNodes) (buildEdgeMap demoEdges) 2 =
     Some \<lparr>nodeTargets = {1}, allowRoot = True\<rparr>"
proof -
  have h: "DAList.lookup (nodesById_of demoNodes) 2 = Some (demoNode 2 ''Genesis.1.1'' (Some 1))"
    by (simp add: demo_defs alist_eval tree_eval)
  have v: "computeDropTargets (nodesById_of demoNodes) (buildEdgeMap demoEdges) 2 =
     Some \<lparr>nodeTargets = {1}, allowRoot = True\<rparr>"
    by (simp add: computeDropTargets_def addTarget_def collectDescendants_def collectLoop.simps
        demo_defs alist_eval tree_eval)
  show ?thesis
    using h v drop_targets_characterised [OF h, of "buildEdgeMap demoEdges"] by simp
qed

text \<open>
  Claim C1 as stated fails: in the example scope node 4 is draggable, is not node 3 and is not
  a descendant of node 3 (which has none), yet it is not among the drop targets of node 3,
  because \<open>4 \<ge> 3\<close>.
\<close>

theorem drop_targets_order_counterexample:
  "DAList.lookup (nodesById_of demoNodes) 4 = Some (demoNode 4 ''Genesis.1.1'' (Some 2)) \<and>
   draggable (demoNode 4 ''Genesis.1.1'' (Some 2)) \<and>
   collectDescendants 3 (buildChildrenMap (buildEdgeMap demoEdges)) = Some {} \<and>
   (4 :: int) \<noteq> 3 \<and>
   computeDropTargets (nodesById_of demoNodes) (buildEdgeMap demoEdges) 3 =
     Some \<lparr>nodeTargets = {1, 2}, allowRoot = True\<rparr> \<and>
   (4 :: int) \<notin> {1, 2}"
  by (simp add: computeDropTargets_def addTarget_def collectDescendants_def collectLoop.simps
      demo_defs alist_eval tree_eval insert_commute)

text \<open>
  Claim C8. Single-edge incremental update: applying one mutation-response edge \<open>e\<close> with
  \<^verbatim>\<open>applyEdgeUpdate\<close> sets the mother of \<open>e.from\<close> to \<open>e.to\<close> (null when absent), puts
  \<open>e.from\<close> into the edited set exactly when \<open>e.source\<close> is \<open>user\<close> (and removes it
  otherwise, that is for \<open>original\<close>), and leaves the entries of \<^verbatim>\<open>mothers\<close> and
  \<^verbatim>\<open>edited\<close> of every other node as they were.
\<close>

theorem applyEdgeUpdate_frame:
  "DAList.lookup (st_mothers (applyEdgeUpdate st e)) k =
     (if k = edge_from e then Some (edge_to e) else DAList.lookup (st_mothers st) k) \<and>
   (k \<in> st_edited (applyEdgeUpdate st e) \<longleftrightarrow>
     (if k = edge_from e then edge_source e = User else k \<in> st_edited st))"
  by (cases "edge_source e") (auto simp: applyEdgeUpdate_def DAList.lookup_update)

text \<open>
  The edge \<open>3 \<rightarrow> 4\<close> of source \<open>user\<close> applied to the example state: node 3 gets the
  mother 4 and is edited, node 2 keeps its mother 1 and is not edited.
\<close>

theorem applyEdgeUpdate_frame_witness:
  "DAList.lookup (st_mothers (applyEdgeUpdate demoState
       \<lparr>edge_from = 3, edge_to = Some 4, edge_source = User\<rparr>)) 3 = Some (Some 4) \<and>
   DAList.lookup (st_mothers (applyEdgeUpdate demoState
       \<lparr>edge_from = 3, edge_to = Some 4, edge_source = User\<rparr>)) 2 = Some (Some 1) \<and>
   3 \<in> st_edited (applyEdgeUpdate demoState \<lparr>edge_from = 3, edge_to = Some 4, edge_source = User\<rparr>) \<and>
   2 \<notin> st_edited (applyEdgeUpdate demoState \<lparr>edge_from = 3, edge_to = Some 4, edge_source = User\<rparr>)"
  using applyEdgeUpdate_frame [of demoState "\<lparr>edge_from = 3, edge_to = Some 4, edge_source = User\<rparr>" 3]
    applyEdgeUpdate_frame [of demoState "\<lparr>edge_from = 3, edge_to = Some 4, edge_source = User\<rparr>" 2]
  by (simp add: demoState_def demo_defs alist_eval tree_eval)

text \<open>
  Claim C9. For every failed (non-ok) response, \<^verbatim>\<open>handleResponse\<close> throws an
  \<^verbatim>\<open>Error\<close> whose message is the raw body text, or \<open>Request failed\<close> when the body is
  empty, whatever the \<^verbatim>\<open>try\<close> block threw: the error built from the parsed
  \<^verbatim>\<open>reason\<close> member never leaves the function, because the \<^verbatim>\<open>catch\<close> around it
  replaces it.
\<close>

theorem failed_response_message:
  "\<not> resp_ok response \<Longrightarrow>
   handleResponse rt response =
     Inl (Error (if resp_text response = [] then ''Request failed'' else resp_text response))"
  by (rule handleResponse_not_ok)

text \<open>
  A failed response whose body is the JSON object with the reason \<open>CycleDetected\<close>: the
  \<^verbatim>\<open>try\<close> block throws the error with that reason, and the function throws the error
  with the whole body as its message; with an empty body the message is \<open>Request failed\<close>.
\<close>

theorem failed_response_message_witness:
  "\<not> resp_ok (failedResponse demoBody) \<and>
   (tryBlock demoRuntime demoBody :: js_thrown + EdgeEnvelope) = Inl (Error ''CycleDetected'') \<and>
   handleResponse demoRuntime (failedResponse demoBody) = Inl (Error demoBody) \<and>
   handleResponse demoRuntime (failedResponse []) = Inl (Error ''Request failed'')"
proof -
  have h: "\<not> resp_ok (failedResponse body)" for body
    by (simp add: failedResponse_def)
  have t: "(tryBlock demoRuntime demoBody :: js_thrown + EdgeEnvelope) = Inl (Error ''CycleDetected'')"
    by (simp add: api_eval)
  show ?thesis
    using h t failed_response_message [OF h, of demoRuntime demoBody]
      failed_response_message [OF h, of demoRuntime "[]"]
    by (simp add: failedResponse_def demoBody_def)
qed

section \<open>Claims about the engine and its mirror\<close>

text \<open>
  Claim C2, as amended. Cycle prevention: a node is never offered or accepted as the new
  mother of its own ancestor. For every node \<open>child\<close> of the corpus and every node \<open>d\<close> in
  \<open>descendantsOf(child) \<union> {child}\<close> over the current effective mother map, the upward walk
  of the cycle rule from \<open>d\<close> meets \<open>child\<close> and the engine rejects the reparent of
  \<open>child\<close> onto \<open>d\<close>, leaving its state as it was; the code returned is
  \<open>CycleDetected\<close>, except for \<open>d = child\<close>, where the self-parent rule answers first. In
  the client mirror, \<open>d\<close> is never an element of
  \<^verbatim>\<open>computeDropTargets(child).nodeTargets\<close>.
\<close>

theorem cycle_prevention:
  "(DAList.lookup (corpus eng) child \<noteq> None \<and>
    d \<in> descendantsOf (effectiveMap eng) child \<union> {child} \<longrightarrow>
      ancestorWalk eng (size (corpus eng)) d child \<and>
      Reparent eng child d = (Inl (if d = child then SelfParent else CycleDetected), eng)) \<and>
   (d \<in> descendantsOf mothers child \<union> {child} \<longrightarrow>
      (\<exists>targets. computeDropTargets nodesById mothers child = Some targets \<and>
         d \<notin> nodeTargets targets))"
  using cycle_rule_fires [of eng child d] Reparent_descendant [of eng child d]
    computeDropTargets_excludes [of d mothers child nodesById]
  by blast

text \<open>
  After \<^verbatim>\<open>Reparent(3, 4)\<close>, node 3 is a descendant of node 1 (through 4 and 2):
  \<^verbatim>\<open>Reparent(1, 3)\<close> is rejected with \<open>CycleDetected\<close>; in the client, node 3 is a
  descendant of node 2 and is not among the drop targets of node 2.
\<close>

theorem cycle_prevention_witness:
  "DAList.lookup (corpus reparented) 1 \<noteq> None \<and>
   3 \<in> descendantsOf (effectiveMap reparented) 1 \<union> {1} \<and>
   Reparent reparented 1 3 = (Inl CycleDetected, reparented) \<and>
   3 \<in> descendantsOf (st_mothers reparentedState) 2 \<union> {2} \<and>
   computeDropTargets (nodesById_of demoNodes) (st_mothers reparentedState) 2 =
     Some \<lparr>nodeTargets = {1}, allowRoot = True\<rparr> \<and>
   3 \<notin> nodeTargets \<lparr>nodeTargets = {1 :: int}, allowRoot = True\<rparr>"
proof -
  have k: "DAList.lookup (corpus reparented) 1 \<noteq> None"
    by (simp add: reparented_def engine_eval demo_defs alist_eval)
  have "collectDescendants 1 (buildChildrenMap (effectiveMap reparented)) = Some {2, 3, 4}"
    by (simp add: reparented_def effectiveMap_def engine_eval demo_defs alist_eval tree_eval
        collectDescendants_def collectLoop.simps insert_commute)
  then have d1: "3 \<in> descendantsOf (effectiveMap reparented) 1 \<union> {1}"
    by (simp add: collectDescendants_descendantsOf)
  have "collectDescendants 2 (buildChildrenMap (st_mothers reparentedState)) = Some {3, 4}"
    by (simp add: reparentedState_def applyEdgeUpdate_def demoState_def demo_defs alist_eval
        tree_eval collectDescendants_def collectLoop.simps insert_commute)
  then have d2: "3 \<in> descendantsOf (st_mothers reparentedState) 2 \<union> {2}"
    by (simp add: collectDescendants_descendantsOf)
  have t: "computeDropTargets (nodesById_of demoNodes) (st_mothers reparentedState) 2 =
     Some \<lparr>nodeTargets = {1}, allowRoot = True\<rparr>"
    by (simp add: computeDropTargets_def addTarget_def reparentedState_def applyEdgeUpdate_def
        demoState_def demo_defs alist_eval tree_eval collectDescendants_def collectLoop.simps
        insert_commute)
  show ?thesis
    using k d1 d2 t
      cycle_prevention [of reparented 1 3 "st_mothers reparentedState" "nodesById_of demoNodes"]
      cycle_prevention [of reparented 2 3 "st_mothers reparentedState" "nodesById_of demoNodes"]
    by simp
qed


text \<open>
  Claim C2 as stated fails at \<open>d = child\<close>: node 3 is a node of the fresh four-node
  corpus, and the reparent of node 3 onto itself is rejected with \<open>SelfParent\<close>, not with
  \<open>CycleDetected\<close>, because the self-parent rule comes first.
\<close>

theorem cycle_prevention_self_counterexample:
  "DAList.lookup (corpus (freshEngine demoNodes)) 3 \<noteq> None \<and>
   (3 :: int) \<in> {3} \<and>
   Reparent (freshEngine demoNodes) 3 3 = (Inl SelfParent, freshEngine demoNodes) \<and>
   fst (Reparent (freshEngine demoNodes) 3 3) \<noteq> Inl CycleDetected"
  by (simp add: engine_eval demo_defs alist_eval)

text \<open>
  Claim C4. Undo/redo inverse law: for any accepted mutation \<open>m\<close> with resulting edge
  \<open>e\<close>, an \<^verbatim>\<open>Undo()\<close> immediately afterwards returns the child's edge as it was
  before \<open>m\<close> and restores the overlay, hence the effective edge of every node, to its value
  before \<open>m\<close>; a subsequent \<^verbatim>\<open>Redo()\<close> returns \<open>e\<close> again and restores the overlay,
  the effective edges and both stacks of the log to their values after \<open>m\<close>. In the client,
  applying the returned edges gives the child its mother of before \<open>m\<close>, then that of
  \<open>e\<close>.
\<close>

theorem undo_redo_inverse:
  assumes "perform eng op = (Inr e, eng1)"
  shows "fst (Undo eng1) = Inr (changedEdge eng (edge_from e)) \<and>
         overlay (snd (Undo eng1)) = overlay eng \<and>
         effective (snd (Undo eng1)) n = effective eng n \<and>
         history (snd (Undo eng1)) = history eng \<and>
         fst (Redo (snd (Undo eng1))) = Inr e \<and>
         overlay (snd (Redo (snd (Undo eng1)))) = overlay eng1 \<and>
         effective (snd (Redo (snd (Undo eng1)))) n = effective eng1 n \<and>
         history (snd (Redo (snd (Undo eng1)))) = history eng1 \<and>
         future (snd (Redo (snd (Undo eng1)))) = future eng1 \<and>
         mother_of (st_mothers (applyEdgeUpdate (applyEdgeUpdate st e) (changedEdge eng (edge_from e))))
           (edge_from e) = effective eng (edge_from e) \<and>
         mother_of (st_mothers (applyEdgeUpdate
             (applyEdgeUpdate (applyEdgeUpdate st e) (changedEdge eng (edge_from e))) e))
           (edge_from e) = edge_to e"
proof -
  from perform_accept [OF assms] obtain newMother
    where a: "(eng1, e) = applyOverlay eng (edge_from e) newMother" by blast
  note u = Undo_applyOverlay [OF a] and r = Redo_Undo_applyOverlay [OF a]
  have "effective (snd (Undo eng1)) n = effective eng n"
    by (rule effective_cong) (simp_all add: u)
  moreover have "effective (snd (Redo (snd (Undo eng1)))) n = effective eng1 n"
    by (rule effective_cong) (simp_all add: r)
  moreover have "mother_of (st_mothers (applyEdgeUpdate st' x)) (edge_from x) = edge_to x"
    for st' x
    by (simp add: applyEdgeUpdate_def mother_of_def)
  then have "mother_of (st_mothers (applyEdgeUpdate (applyEdgeUpdate st e)
        (changedEdge eng (edge_from e)))) (edge_from e) = effective eng (edge_from e)"
    "mother_of (st_mothers (applyEdgeUpdate
             (applyEdgeUpdate (applyEdgeUpdate st e) (changedEdge eng (edge_from e))) e))
           (edge_from e) = edge_to e"
    by (metis EdgeDTO.select_convs(1,2) changedEdge_def)+
  ultimately show ?thesis using u r by simp
qed

text \<open>
  The scenario of the specification: \<^verbatim>\<open>Reparent(3, 4)\<close> is accepted, the undo returns the
  edge \<open>3 \<rightarrow> 1\<close> of source \<open>original\<close>, the redo returns the edge \<open>3 \<rightarrow> 4\<close> of source
  \<open>user\<close>.
\<close>

theorem undo_redo_inverse_witness:
  "perform (freshEngine demoNodes) (ReparentOp 3 4) =
     (Inr \<lparr>edge_from = 3, edge_to = Some 4, edge_source = User\<rparr>,
      fst (applyOverlay (freshEngine demoNodes) 3 (Some 4))) \<and>
   effective (fst (applyOverlay (freshEngine demoNodes) 3 (Some 4))) 3 = Some 4 \<and>
   fst (Undo (fst (applyOverlay (freshEngine demoNodes) 3 (Some 4)))) =
     Inr \<lparr>edge_from = 3, edge_to = Some 1, edge_source = Original\<rparr> \<and>
   effective (snd (Undo (fst (applyOverlay (freshEngine demoNodes) 3 (Some 4))))) 3 = Some 1 \<and>
   fst (Redo (snd (Undo (fst (applyOverlay (freshEngine demoNodes) 3 (Some 4)))))) =
     Inr \<lparr>edge_from = 3, edge_to = Some 4, edge_source = User\<rparr> \<and>
   effective (snd (Redo (snd (Undo (fst (applyOverlay (freshEngine demoNodes) 3 (Some 4))))))) 3
     = Some 4"
proof -
  have p: "perform (freshEngine demoNodes) (ReparentOp 3 4) =
     (Inr \<lparr>edge_from = 3, edge_to = Some 4, edge_source = User\<rparr>,
      fst (applyOverlay (freshEngine demoNodes) 3 (Some 4)))"
    by (simp add: engine_eval demo_defs alist_eval)
  have e: "effective (freshEngine demoNodes) 3 = Some 1"
          "effective (fst (applyOverlay (freshEngine demoNodes) 3 (Some 4))) 3 = Some 4"
          "changedEdge (freshEngine demoNodes) 3 =
             \<lparr>edge_from = 3, edge_to = Some 1, edge_source = Original\<rparr>"
    by (simp_all add: engine_eval demo_defs alist_eval)
  show ?thesis
    using p e undo_redo_inverse [OF p, of 3]
    by simp
qed

text \<open>
  Claim C5. No self-loop: for every node \<open>n\<close>, the engine rejects the reparent of \<open>n\<close>
  onto \<open>n\<close> with \<open>SelfParent\<close> and leaves its state as it was; in the client, \<open>n\<close> is
  not among \<^verbatim>\<open>computeDropTargets(n).nodeTargets\<close>, and a drag of \<open>n\<close> dropped onto
  the row of \<open>n\<close> reports the error "same node" and sends no request.
\<close>

theorem no_self_loop:
  "Reparent eng n n = (Inl SelfParent, eng) \<and>
   (\<exists>targets. computeDropTargets nodesById mothers n = Some targets \<and> n \<notin> nodeTargets targets) \<and>
   (parseDragId Number (active_id event) = Some n \<and>
    over_id event = Some oid \<and> parseDropId Number oid = Some n \<longrightarrow>
      handleDrop Number (handleDragStart Number nodesById mothers (active_id event)) event awaited
        = [ReportError SameNode, SetPendingAction None, ResetDragState] \<and>
      (\<forall>c m. ReparentNode c m \<notin> set (handleDrop Number dropTargets event awaited)) \<and>
      (\<forall>c. RootifyNode c \<notin> set (handleDrop Number dropTargets event awaited)))"
proof -
  have 1: "Reparent eng n n = (Inl SelfParent, eng)" by (simp add: Reparent_def)
  have 3: "handleDrop Number (handleDragStart Number nodesById mothers (active_id event)) event awaited
        = [ReportError SameNode, SetPendingAction None, ResetDragState] \<and>
      (\<forall>c m. ReparentNode c m \<notin> set (handleDrop Number dropTargets event awaited)) \<and>
      (\<forall>c. RootifyNode c \<notin> set (handleDrop Number dropTargets event awaited))"
    if h: "parseDragId Number (active_id event) = Some n"
      "over_id event = Some oid" "parseDropId Number oid = Some n"
  proof -
    obtain targets where "handleDragStart Number nodesById mothers (active_id event) = Some targets"
      using handleDragStart_Some [OF h(1)] by blast
    then show ?thesis
      unfolding handleDrop_self [OF h] by (simp split: option.splits)
  qed
  from 1 self_not_target [of nodesById mothers n] 3 show ?thesis by blast
qed

text \<open>Node 3 of the example scope dragged onto its own row.\<close>

theorem no_self_loop_witness:
  "parseDragId demoNumber (active_id selfDrop) = Some 3 \<and>
   over_id selfDrop = Some (StrId ''drop-3'') \<and>
   parseDropId demoNumber (StrId ''drop-3'') = Some 3 \<and>
   Reparent (freshEngine demoNodes) 3 3 = (Inl SelfParent, freshEngine demoNodes) \<and>
   computeDropTargets (nodesById_of demoNodes) (buildEdgeMap demoEdges) 3 =
     Some \<lparr>nodeTargets = {1, 2}, allowRoot = True\<rparr> \<and>
   handleDrop demoNumber
     (handleDragStart demoNumber (nodesById_of demoNodes) (buildEdgeMap demoEdges)
        (active_id selfDrop))
     selfDrop None = [ReportError SameNode, SetPendingAction None, ResetDragState]"
proof -
  have h: "parseDragId demoNumber (active_id selfDrop) = Some 3 \<and>
      over_id selfDrop = Some (StrId ''drop-3'') \<and>
      parseDropId demoNumber (StrId ''drop-3'') = Some 3"
    by (simp add: drag_eval)
  have t: "computeDropTargets (nodesById_of demoNodes) (buildEdgeMap demoEdges) 3 =
     Some \<lparr>nodeTargets = {1, 2}, allowRoot = True\<rparr>"
    by (simp add: computeDropTargets_def addTarget_def collectDescendants_def collectLoop.simps
        demo_defs alist_eval tree_eval insert_commute)
  show ?thesis
    using h t no_self_loop [of "freshEngine demoNodes" 3 "nodesById_of demoNodes"
        "buildEdgeMap demoEdges" demoNumber selfDrop "StrId ''drop-3''" None None]
    by simp
qed

text \<open>
  Claim C7. Atomicity of rejected mutations: an engine operation (reparent, rootify, undo,
  redo) that returns a rejection returns the state it was given. In the client mirror,
  whenever \<^verbatim>\<open>handleMutation\<close> rethrows, for each of the four mutations, the mothers map
  and the edited set are those of before the call; and a response that is not ok makes each
  of the four throw.
\<close>

theorem rejected_mutation_atomic:
  "(fst (perform eng op) = Inl r \<longrightarrow> snd (perform eng op) = eng) \<and>
   (fst (Undo eng) = Inl r \<longrightarrow> snd (Undo eng) = eng) \<and>
   (fst (Redo eng) = Inl r \<longrightarrow> snd (Redo eng) = eng) \<and>
   (snd (handleMutation st result) \<noteq> None \<longrightarrow>
      sameMirror st (fst (handleMutation st result))) \<and>
   (snd (reparentNode rt fetch st child newMother) \<noteq> None \<longrightarrow>
      sameMirror st (fst (reparentNode rt fetch st child newMother))) \<and>
   (snd (rootifyNode rt fetch st child) \<noteq> None \<longrightarrow>
      sameMirror st (fst (rootifyNode rt fetch st child))) \<and>
   (snd (undoLast rt fetch st) \<noteq> None \<longrightarrow> sameMirror st (fst (undoLast rt fetch st))) \<and>
   (snd (redoLast rt fetch st) \<noteq> None \<longrightarrow> sameMirror st (fst (redoLast rt fetch st))) \<and>
   (fetch (PostReparent child newMother) = Inr res \<and> \<not> resp_ok res \<longrightarrow>
      snd (reparentNode rt fetch st child newMother) =
        Some (Error (if resp_text res = [] then ''Request failed'' else resp_text res))) \<and>
   (fetch (PostRootify child) = Inr res \<and> \<not> resp_ok res \<longrightarrow>
      snd (rootifyNode rt fetch st child) =
        Some (Error (if resp_text res = [] then ''Request failed'' else resp_text res))) \<and>
   (fetch PostUndo = Inr res \<and> \<not> resp_ok res \<longrightarrow>
      snd (undoLast rt fetch st) =
        Some (Error (if resp_text res = [] then ''Request failed'' else resp_text res))) \<and>
   (fetch PostRedo = Inr res \<and> \<not> resp_ok res \<longrightarrow>
      snd (redoLast rt fetch st) =
        Some (Error (if resp_text res = [] then ''Request failed'' else resp_text res)))"
proof -
  note engine = perform_reject [of eng op r] Undo_reject [of eng r] Redo_reject [of eng r]
  note hooks = handleMutation_rethrows [of st "reparent rt fetch child newMother"]
    handleMutation_rethrows [of st "rootify rt fetch child"]
    handleMutation_rethrows [of st "undo rt fetch"]
    handleMutation_rethrows [of st "redo rt fetch"]
  have failed: "\<not> resp_ok res \<longrightarrow>
      snd (handleMutation st (map_sum id env_edge (handleResponse rt res))) =
        Some (Error (if resp_text res = [] then ''Request failed'' else resp_text res))"
    using failed_request [of res st rt] by blast
  show ?thesis
    using engine hooks handleMutation_rethrows [of st result] failed
    by (simp add: reparentNode_def rootifyNode_def undoLast_def redoLast_def
        reparent_def rootify_def undo_def redo_def)
qed

text \<open>
  On the fresh four-node corpus \<^verbatim>\<open>Reparent(1, 2)\<close> is rejected (2 is a child of 1) and
  there is nothing to undo or redo; in the client, a reparent answered by a failed response
  throws the body and leaves the mirror as it was.
\<close>

theorem rejected_mutation_atomic_witness:
  "perform (freshEngine demoNodes) (ReparentOp 1 2) = (Inl CycleDetected, freshEngine demoNodes) \<and>
   Undo (freshEngine demoNodes) = (Inl EmptyHistory, freshEngine demoNodes) \<and>
   Redo (freshEngine demoNodes) = (Inl EmptyFuture, freshEngine demoNodes) \<and>
   failingFetch (PostReparent 1 2) = Inr (failedResponse demoBody) \<and>
   \<not> resp_ok (failedResponse demoBody) \<and>
   snd (reparentNode demoRuntime failingFetch demoState 1 2) = Some (Error demoBody) \<and>
   sameMirror demoState (fst (reparentNode demoRuntime failingFetch demoState 1 2))"
proof -
  have e: "perform (freshEngine demoNodes) (ReparentOp 1 2) =
             (Inl CycleDetected, freshEngine demoNodes)"
          "Undo (freshEngine demoNodes) = (Inl EmptyHistory, freshEngine demoNodes)"
          "Redo (freshEngine demoNodes) = (Inl EmptyFuture, freshEngine demoNodes)"
    by (simp_all add: engine_eval demo_defs alist_eval)
  have f: "failingFetch (PostReparent 1 2) = Inr (failedResponse demoBody)"
          "\<not> resp_ok (failedResponse demoBody)"
    by (simp_all add: failingFetch_def failedResponse_def)
  have t: "resp_text (failedResponse demoBody) = demoBody" "demoBody \<noteq> []"
    by (simp_all add: failedResponse_def demoBody_def)
  show ?thesis
    using e f t
      rejected_mutation_atomic [of "freshEngine demoNodes" "ReparentOp 1 2" CycleDetected
        demoState "Inl NonError" demoRuntime failingFetch 1 2 "failedResponse demoBody"]
    by simp
qed

text \<open>
  Claim C3, on its failing input. In the scope of two verses, node 1 (verse
  \<open>Genesis.1.1\<close>) is a drop target of node 2 (verse \<open>Genesis.1.2\<close>):
  \<^verbatim>\<open>computeDropTargets\<close> never reads \<^verbatim>\<open>containerId\<close>.
\<close>

theorem drop_targets_cross_container:
  "computeDropTargets (nodesById_of crossNodes) (buildEdgeMap crossEdges) 2 =
     Some \<lparr>nodeTargets = {1}, allowRoot = True\<rparr> \<and>
   map_option containerId (DAList.lookup (nodesById_of crossNodes) 1) = Some ''Genesis.1.1'' \<and>
   map_option containerId (DAList.lookup (nodesById_of crossNodes) 2) = Some ''Genesis.1.2''"
  by (simp add: computeDropTargets_def addTarget_def collectDescendants_def collectLoop.simps
      crossNodes_def crossEdges_def demo_defs alist_eval tree_eval)

end
